theory Spec2Isabelle
  imports Complex_Main "HOL-Library.Sublist"
begin

section \<open>collector/monitor.go: identity resolution, tag expansion, sampling\<close>

text \<open>
  A shallow embedding of \<^verbatim>\<open>src/collector/monitor.go\<close>. Go strings are byte
  sequences and are modelled as \<open>string\<close>; a Go \<^verbatim>\<open>map[string]string\<close> is a
  partial function \<open>string \<rightharpoonup> string\<close>; the environment slice of a container is a
  list of entries in the order the runtime reports them.
\<close>

subsection \<open>Library functions the source calls\<close>

text \<open>
  \<^verbatim>\<open>strings.HasPrefix(s, prefix)\<close> and \<^verbatim>\<open>strings.TrimPrefix(s, prefix)\<close>:
  the second returns \<open>s\<close> without the leading \<open>prefix\<close>, and \<open>s\<close> itself when
  \<open>s\<close> does not start with \<open>prefix\<close>.
\<close>

definition HasPrefix :: "string \<Rightarrow> string \<Rightarrow> bool" where
  "HasPrefix s pre = (length pre \<le> length s \<and> take (length pre) s = pre)"

definition TrimPrefix :: "string \<Rightarrow> string \<Rightarrow> string" where
  "TrimPrefix s pre = (if HasPrefix s pre then drop (length pre) s else s)"

text \<open>
  \<^verbatim>\<open>strings.Split(s, sep)\<close> for a separator of one byte, which is the only way the
  source calls it (\<^verbatim>\<open>"/"\<close>): cut at the first separator, keep the part before it
  and go on with the part after it; the rest without a separator is the last piece.
  \<^verbatim>\<open>regexp.MustCompile("[-.]").Split(s, -1)\<close> cuts in the same way at every
  byte of the class, since a match of a one-byte class is exactly one such byte.
  Both are instances of \<open>splitWhere\<close>, which takes the test for a separator byte.
\<close>

function splitWhere :: "(char \<Rightarrow> bool) \<Rightarrow> string \<Rightarrow> string list" where
  "splitWhere P s =
     (case dropWhile (\<lambda>c. \<not> P c) s of
        [] \<Rightarrow> [s]
      | _ # rest \<Rightarrow> takeWhile (\<lambda>c. \<not> P c) s # splitWhere P rest)"
  by pat_completeness auto
termination
proof (relation "measure (\<lambda>(P, s). length s)")
  show "wf (measure (\<lambda>(P, s). length s))" by simp
next
  fix P :: "char \<Rightarrow> bool" and s :: string and x21 :: char and rest :: string
  assume d: "dropWhile (\<lambda>c. \<not> P c) s = x21 # rest"
  have "length (dropWhile (\<lambda>c. \<not> P c) s) \<le> length s"
    by (rule length_dropWhile_le)
  with d show "((P, rest), (P, s)) \<in> measure (\<lambda>(P, s). length s)" by simp
qed

declare splitWhere.simps [simp del]

definition Split :: "string \<Rightarrow> char \<Rightarrow> string list" where
  "Split s sep = splitWhere (\<lambda>c. c = sep) s"

text \<open>\<^verbatim>\<open>strings.Join(elems, sep)\<close>.\<close>

fun Join :: "string list \<Rightarrow> string \<Rightarrow> string" where
  "Join [] sep = []"
| "Join [x] sep = x"
| "Join (x # y # ys) sep = x @ sep @ Join (y # ys) sep"

text \<open>
  \<^verbatim>\<open>strconv.Itoa(i)\<close>: the decimal digits of \<open>i\<close>, most significant first,
  after a minus sign when \<open>i\<close> is negative.
\<close>

definition digit :: "nat \<Rightarrow> char" where
  "digit d = ''0123456789'' ! d"

function decimal :: "nat \<Rightarrow> string" where
  "decimal n = (if n < 10 then [digit n] else decimal (n div 10) @ [digit (n mod 10)])"
  by pat_completeness auto
termination
  by (relation "measure (\<lambda>n. n)") auto

declare decimal.simps [simp del]

definition Itoa :: "int \<Rightarrow> string" where
  "Itoa i = (if i < 0 then CHR ''-'' # decimal (nat (- i)) else decimal (nat i))"

subsection \<open>Configuration\<close>

text \<open>
  \<^verbatim>\<open>Getenv\<close> (lines 15-21). The process environment is a parameter \<open>penv\<close>:
  \<open>penv k\<close> is what \<^verbatim>\<open>os.Getenv(k)\<close> returns, the empty string for an unset
  variable. The package variables of lines 23-35 are read once from it.
\<close>

definition Getenv :: "(string \<Rightarrow> string) \<Rightarrow> string \<Rightarrow> string \<Rightarrow> string" where
  "Getenv penv env defaultValue =
     (let v = penv env in if length v > 0 then v else defaultValue)"

definition unset_env :: "string \<Rightarrow> string" where
  "unset_env = (\<lambda>k. [])"

definition appLabel :: "(string \<Rightarrow> string) \<Rightarrow> string" where
  "appLabel penv = Getenv penv ''APP_LABEL_KEY'' ''app_id''"

definition appLocationLabel :: string where
  "appLocationLabel = ''collectd_docker_app_label''"

definition taskLabel :: "(string \<Rightarrow> string) \<Rightarrow> string" where
  "taskLabel penv = Getenv penv ''TASK_LABEL_KEY'' ''collectd_docker_task''"

definition taskLocationLabel :: string where
  "taskLocationLabel = ''collectd_docker_task_label''"

definition appEnvPrefix :: "(string \<Rightarrow> string) \<Rightarrow> string" where
  "appEnvPrefix penv = Getenv penv ''APP_ENV_KEY'' ''MARATHON_APP_ID'' @ ''=''"

definition appEnvLocationPrefix :: string where
  "appEnvLocationPrefix = ''COLLECTD_DOCKER_APP_ENV=''"

definition appEnvLocationTrimPrefix :: string where
  "appEnvLocationTrimPrefix = ''COLLECTD_DOCKER_APP_ENV_TRIM_PREFIX=''"

definition taskEnvPrefix :: "(string \<Rightarrow> string) \<Rightarrow> string" where
  "taskEnvPrefix penv = Getenv penv ''TASK_ENV_KEY'' ''MESOS_TASK_ID'' @ ''=''"

definition taskEnvLocationPrefix :: string where
  "taskEnvLocationPrefix = ''COLLECTD_DOCKER_TASK_ENV=''"

definition taskEnvLocationTrimPrefix :: string where
  "taskEnvLocationTrimPrefix = ''COLLECTD_DOCKER_TASK_ENV_TRIM_PREFIX=''"

definition defaultTask :: string where
  "defaultTask = ''default''"

subsection \<open>Containers and identity resolution\<close>

text \<open>
  The part of \<^verbatim>\<open>docker.Container\<close> the source reads: \<^verbatim>\<open>ID\<close>, \<^verbatim>\<open>Name\<close>,
  \<^verbatim>\<open>Config.Labels\<close> and \<^verbatim>\<open>Config.Env\<close>. The runtime client is taken to
  return a container together with its \<^verbatim>\<open>Config\<close>.
\<close>

record Container =
  ID :: string
  Name :: string
  Labels :: "string \<rightharpoonup> string"
  Env :: "string list"

text \<open>
  \<^verbatim>\<open>extractEnv\<close> (lines 164-172): the loop over \<^verbatim>\<open>c.Config.Env\<close> is
  \<open>extractEnvLoop\<close>; it returns at the first entry that has the prefix.
\<close>

fun extractEnvLoop :: "string list \<Rightarrow> string \<Rightarrow> string" where
  "extractEnvLoop [] envPrefix = []"
| "extractEnvLoop (e # es) envPrefix =
     (if HasPrefix e envPrefix then TrimPrefix e envPrefix else extractEnvLoop es envPrefix)"

definition extractEnv :: "Container \<Rightarrow> string \<Rightarrow> string" where
  "extractEnv c envPrefix = extractEnvLoop (Env c) envPrefix"

text \<open>\<^verbatim>\<open>extractMetadata\<close> (lines 151-162).\<close>

definition extractMetadata :: "Container \<Rightarrow> string \<Rightarrow> string \<Rightarrow> string \<Rightarrow> string" where
  "extractMetadata c label envPrefix missing =
     (case Labels c label of
        Some app \<Rightarrow> app
      | None \<Rightarrow>
          (let env = extractEnv c envPrefix in
           if env \<noteq> [] then env else missing))"

text \<open>\<^verbatim>\<open>extractApp\<close> (lines 115-131) and \<^verbatim>\<open>extractTask\<close> (lines 133-149).\<close>

definition extractApp :: "(string \<Rightarrow> string) \<Rightarrow> Container \<Rightarrow> string" where
  "extractApp penv c =
     (let location = extractMetadata c appLocationLabel appEnvLocationPrefix [];
          app = (if location \<noteq> []
                 then extractMetadata c location (location @ ''='') []
                 else extractMetadata c (appLabel penv) (appEnvPrefix penv) []);
          prefix = extractEnv c appEnvLocationTrimPrefix
      in if prefix \<noteq> [] then TrimPrefix app prefix else app)"

definition extractTask :: "(string \<Rightarrow> string) \<Rightarrow> Container \<Rightarrow> string" where
  "extractTask penv c =
     (let location = extractMetadata c taskLocationLabel taskEnvLocationPrefix [];
          task = (if location \<noteq> []
                  then extractMetadata c location (location @ ''='') defaultTask
                  else extractMetadata c (taskLabel penv) (taskEnvPrefix penv) defaultTask);
          prefix = extractEnv c taskEnvLocationTrimPrefix
      in if prefix \<noteq> [] then TrimPrefix task prefix else task)"

subsection \<open>Tag expansion\<close>

text \<open>
  \<^verbatim>\<open>extractTagsFromApp\<close> (lines 174-187). The map \<^verbatim>\<open>tags\<close> is mutated in
  place by the source; the model returns the updated map. \<open>groupLoop\<close> is the
  \<^verbatim>\<open>for i := 1; i < len(split); i++\<close> loop of lines 183-185.
\<close>

function groupLoop :: "(string \<rightharpoonup> string) \<Rightarrow> string list \<Rightarrow> nat \<Rightarrow> (string \<rightharpoonup> string)" where
  "groupLoop tags split i =
     (if i < length split
      then groupLoop (tags(''group'' @ Itoa (int i) \<mapsto> Join (take (i + 1) split) ''/'')) split (i + 1)
      else tags)"
  by pat_completeness auto
termination
  by (relation "measure (\<lambda>(tags, split, i). length split - i)") auto

declare groupLoop.simps [simp del]

definition extractTagsFromApp :: "(string \<rightharpoonup> string) \<Rightarrow> string \<Rightarrow> (string \<rightharpoonup> string)" where
  "extractTagsFromApp tags app =
     (let tags1 = tags(''app_id'' \<mapsto> app);
          split = Split app CHR ''/'';
          tags2 = tags1(''app'' \<mapsto> split ! (length split - 1));
          split' = take (length split - 1) split
      in if length split' \<le> 1
         then tags2(''group'' \<mapsto> ''/'')
         else groupLoop (tags2(''group'' \<mapsto> Join split' ''/'')) split' 1)"

text \<open>
  \<^verbatim>\<open>extractTagsFromTask\<close> (lines 189-197); \<open>splitregexp\<close> is the test for a byte
  of the class \<^verbatim>\<open>[-.]\<close>, and \<open>taskLoop\<close> the loop of lines 194-196.
\<close>

definition splitregexp :: "char \<Rightarrow> bool" where
  "splitregexp c = (c = CHR ''-'' \<or> c = CHR ''.'')"

function taskLoop :: "(string \<rightharpoonup> string) \<Rightarrow> string list \<Rightarrow> nat \<Rightarrow> (string \<rightharpoonup> string)" where
  "taskLoop tags split i =
     (if i < length split
      then taskLoop (tags(''task'' @ Itoa (int i + 1) \<mapsto> split ! i)) split (i + 1)
      else tags)"
  by pat_completeness auto
termination
  by (relation "measure (\<lambda>(tags, split, i). length split - i)") auto

declare taskLoop.simps [simp del]

definition extractTagsFromTask :: "(string \<rightharpoonup> string) \<Rightarrow> string \<Rightarrow> (string \<rightharpoonup> string)" where
  "extractTagsFromTask tags task =
     (let split = splitWhere splitregexp task;
          tags1 = tags(''task'' \<mapsto> task)
      in taskLoop tags1 split 0)"

subsection \<open>Monitor construction\<close>

text \<open>
  \<^verbatim>\<open>MonitorDockerClient\<close> (lines 43-46). An error value of the client is of an
  arbitrary type \<open>'e\<close>, a raw \<^verbatim>\<open>docker.Stats\<close> snapshot of an arbitrary type
  \<open>'s\<close>. \<^verbatim>\<open>InspectContainer\<close> returns the error or the container.
  \<^verbatim>\<open>Stats\<close> is a blocking call that sends raw snapshots into the channel it is
  given and then returns; \<open>StatsCall\<close> gives, for a container id, the snapshots it
  sends in order and the error it returns (\<open>None\<close> for \<^verbatim>\<open>nil\<close>).
\<close>

record ('e, 's) MonitorDockerClient =
  InspectContainer :: "string \<Rightarrow> 'e + Container"
  StatsCall :: "string \<Rightarrow> 's list \<times> 'e option"

text \<open>
  The errors \<^verbatim>\<open>NewMonitor\<close> returns: the client's own error, passed on as it
  is, or the package value \<^verbatim>\<open>ErrNoNeedToMonitor\<close> (line 39), which
  \<^verbatim>\<open>errors.New\<close> makes different from every other error value.
\<close>

datatype 'e error = InspectError 'e | ErrNoNeedToMonitor

text \<open>\<^verbatim>\<open>Monitor\<close> (lines 49-56); the field \<^verbatim>\<open>id\<close> is \<open>id'\<close> here.\<close>

record ('e, 's) Monitor =
  client :: "('e, 's) MonitorDockerClient"
  id' :: string
  app :: string
  task :: string
  tags :: "string \<rightharpoonup> string"
  interval :: int

text \<open>
  \<^verbatim>\<open>NewMonitor\<close> (lines 60-86), without its two log lines. The result is
  \<open>Inl\<close> of the error when the source returns \<^verbatim>\<open>nil, err\<close>, and \<open>Inr\<close> of
  the monitor when it returns the monitor and \<^verbatim>\<open>nil\<close>.
\<close>

definition NewMonitor ::
  "(string \<Rightarrow> string) \<Rightarrow> ('e, 's) MonitorDockerClient \<Rightarrow> string \<Rightarrow> int \<Rightarrow>
     'e error + ('e, 's) Monitor" where
  "NewMonitor penv c ident ival =
     (case InspectContainer c ident of
        Inl err \<Rightarrow> Inl (InspectError err)
      | Inr container \<Rightarrow>
          (let app0 = extractApp penv container in
           if app0 = [] then Inl ErrNoNeedToMonitor
           else
             (let tags1 = extractTagsFromApp Map.empty app0;
                  task0 = extractTask penv container;
                  tags2 = extractTagsFromTask tags1 task0
              in Inr \<lparr>client = c, id' = ID container, app = app0, task = task0,
                       tags = tags2, interval = ival\<rparr>)))"

subsection \<open>The sampler\<close>

text \<open>
  Go's \<^verbatim>\<open>int\<close> is taken to be 64 bits wide. \<open>incr\<close> is \<^verbatim>\<open>i++\<close>, which
  wraps around; \<open>rem\<close> is \<^verbatim>\<open>i % k\<close>, the remainder of the division truncated
  towards zero, which panics when \<open>k\<close> is zero.
\<close>

datatype panic = DivideByZero

definition incr :: "int \<Rightarrow> int" where
  "incr i = (i + 1 + 2 ^ 63) mod 2 ^ 64 - 2 ^ 63"

definition rem :: "int \<Rightarrow> int \<Rightarrow> panic + int" where
  "rem a b = (if b = 0 then Inl DivideByZero else Inr (sgn a * (\<bar>a\<bar> mod \<bar>b\<bar>)))"

text \<open>
  \<^verbatim>\<open>Stats\<close>, the value sent downstream (lines 99-102): the monitor's tags and
  the raw snapshot.
\<close>

record 's Stats =
  Tags :: "string \<rightharpoonup> string"
  Stats :: 's

text \<open>
  The goroutine of \<^verbatim>\<open>handle\<close> (lines 91-106), as a function of the snapshots
  that arrive on the channel \<^verbatim>\<open>in\<close>. It returns what it has sent to \<^verbatim>\<open>ch\<close>,
  in order, and the panic that stopped it, if one did.
\<close>

fun sampleLoop ::
  "int \<Rightarrow> (string \<rightharpoonup> string) \<Rightarrow> int \<Rightarrow> 's list \<Rightarrow> 's Stats list \<times> panic option" where
  "sampleLoop k tgs i [] = ([], None)"
| "sampleLoop k tgs i (s # rest) =
     (case rem i k of
        Inl p \<Rightarrow> ([], Some p)
      | Inr r \<Rightarrow>
          if r \<noteq> 0 then sampleLoop k tgs (incr i) rest
          else (case sampleLoop k tgs (incr i) rest of
                  (out, p) \<Rightarrow> (\<lparr>Tags = tgs, Stats = s\<rparr> # out, p)))"

text \<open>
  \<^verbatim>\<open>handle\<close> (lines 88-113): the goroutine runs on what the client's
  \<^verbatim>\<open>Stats\<close> call sends. The result is what was sent to \<^verbatim>\<open>ch\<close> and either
  the panic of the goroutine or the error the \<^verbatim>\<open>Stats\<close> call returned.
\<close>

definition handle :: "('e, 's) Monitor \<Rightarrow> 's Stats list \<times> (panic + 'e option)" where
  "handle m =
     (case StatsCall (client m) (id' m) of
        (raws, err) \<Rightarrow>
          (case sampleLoop (interval m) (tags m) 0 raws of
             (out, Some p) \<Rightarrow> (out, Inl p)
           | (out, None) \<Rightarrow> (out, Inr err)))"

subsection \<open>Auxiliary definitions\<close>

text \<open>
  The value of the variable \<^verbatim>\<open>app\<close> at line 124 and of \<^verbatim>\<open>task\<close> at line
  142: the identity as resolved, before the trim step.
\<close>

definition appResolved :: "(string \<Rightarrow> string) \<Rightarrow> Container \<Rightarrow> string" where
  "appResolved penv c =
     (let location = extractMetadata c appLocationLabel appEnvLocationPrefix []
      in if location \<noteq> []
         then extractMetadata c location (location @ ''='') []
         else extractMetadata c (appLabel penv) (appEnvPrefix penv) [])"

definition taskResolved :: "(string \<Rightarrow> string) \<Rightarrow> Container \<Rightarrow> string" where
  "taskResolved penv c =
     (let location = extractMetadata c taskLocationLabel taskEnvLocationPrefix []
      in if location \<noteq> []
         then extractMetadata c location (location @ ''='') defaultTask
         else extractMetadata c (taskLabel penv) (taskEnvPrefix penv) defaultTask)"

text \<open>
  The snapshots a counter that starts at \<open>i\<close> and never wraps lets through, for
  an interval \<open>k\<close>: the link between the loop of the sampler and the positions
  \<open>0, k, 2k, \<dots>\<close> of the stream.
\<close>

fun pick :: "nat \<Rightarrow> nat \<Rightarrow> 'a list \<Rightarrow> 'a list" where
  "pick k i [] = []"
| "pick k i (x # xs) = (if i mod k = 0 then x # pick k (Suc i) xs else pick k (Suc i) xs)"

subsection \<open>An example client\<close>

text \<open>
  A client that knows two containers: \<^verbatim>\<open>web\<close>, with an app label, whose stream
  delivers three snapshots, and \<^verbatim>\<open>bare\<close>, with no label and no environment.
\<close>

definition exampleClient :: "(string, nat) MonitorDockerClient" where
  "exampleClient =
     \<lparr>InspectContainer = (\<lambda>i.
        if i = ''web''
        then Inr \<lparr>ID = ''web-full-id'', Name = ''/web'',
                  Labels = map_of [(''app_id'', ''/infra/web'')], Env = [''PATH=/bin'']\<rparr>
        else if i = ''bare''
        then Inr \<lparr>ID = ''bare-full-id'', Name = ''/bare'', Labels = map_of [], Env = []\<rparr>
        else Inl ''no such container''),
      StatsCall = (\<lambda>i.
        if i = ''web-full-id'' then ([11, 12, 13], None)
        else ([], Some ''no such container''))\<rparr>"

section \<open>Properties\<close>

subsection \<open>Prefixes and environment lookup\<close>

lemma HasPrefix_iff: "HasPrefix s pre \<longleftrightarrow> prefix pre s"
proof
  assume "HasPrefix s pre"
  then have "take (length pre) s = pre" by (simp add: HasPrefix_def)
  then have "s = pre @ drop (length pre) s" by (metis append_take_drop_id)
  then show "prefix pre s" by (metis prefixI)
next
  assume "prefix pre s"
  then obtain r where "s = pre @ r" by (auto simp: prefix_def)
  then show "HasPrefix s pre" by (simp add: HasPrefix_def)
qed

lemma TrimPrefix_append: "TrimPrefix (pre @ r) pre = r"
  by (simp add: TrimPrefix_def HasPrefix_def)

lemma TrimPrefix_other: "\<not> prefix pre s \<Longrightarrow> TrimPrefix s pre = s"
  by (simp add: TrimPrefix_def HasPrefix_iff)

lemma TrimPrefix_Nil: "TrimPrefix s [] = s"
  by (simp add: TrimPrefix_def HasPrefix_def)

lemma extractEnvLoop_find:
  "extractEnvLoop es p =
     (case find (prefix p) es of None \<Rightarrow> [] | Some e \<Rightarrow> drop (length p) e)"
  by (induction es) (simp_all add: HasPrefix_iff TrimPrefix_def)

lemma extractEnvLoop_first:
  "\<forall>x\<in>set before. \<not> prefix p x \<Longrightarrow> extractEnvLoop (before @ (p @ r) # after) p = r"
  by (induction before) (simp_all add: HasPrefix_iff TrimPrefix_append)

lemma extractEnvLoop_none:
  "\<forall>x\<in>set es. \<not> prefix p x \<Longrightarrow> extractEnvLoop es p = []"
  by (induction es) (simp_all add: HasPrefix_iff)

lemma extractMetadata_label: "Labels c l = Some v \<Longrightarrow> extractMetadata c l p missing = v"
  by (simp add: extractMetadata_def)

lemma extractMetadata_env:
  "Labels c l = None \<Longrightarrow>
   extractMetadata c l p missing = (if extractEnv c p \<noteq> [] then extractEnv c p else missing)"
  by (simp add: extractMetadata_def Let_def)

lemma extractApp_appResolved:
  "extractApp penv c = TrimPrefix (appResolved penv c) (extractEnv c appEnvLocationTrimPrefix)"
  by (simp add: extractApp_def appResolved_def Let_def TrimPrefix_Nil)

lemma extractTask_taskResolved:
  "extractTask penv c = TrimPrefix (taskResolved penv c) (extractEnv c taskEnvLocationTrimPrefix)"
  by (simp add: extractTask_def taskResolved_def Let_def TrimPrefix_Nil)

text \<open>
  C10. For every sequence of environment entries and every prefix \<open>p\<close>,
  \<open>extractEnv\<close> returns what follows \<open>p\<close> in the first entry, in the order of the
  sequence, that starts with \<open>p\<close>, whatever entries come after it, and the empty
  string when no entry starts with \<open>p\<close>. When the first such entry is \<open>p\<close> itself
  (nothing follows the prefix, as in \<^verbatim>\<open>KEY=\<close>), the result is the empty string,
  the same as for no entry at all, and \<open>extractMetadata\<close> with no label goes on to
  its \<open>missing\<close> value.
\<close>

theorem extractEnv_first_match:
  "extractEnv c p = (case find (prefix p) (Env c) of None \<Rightarrow> [] | Some e \<Rightarrow> drop (length p) e)
   \<and> (\<forall>before r after. Env c = before @ (p @ r) # after \<and> (\<forall>x\<in>set before. \<not> prefix p x)
         \<longrightarrow> extractEnv c p = r)
   \<and> ((\<forall>x\<in>set (Env c). \<not> prefix p x) \<longrightarrow> extractEnv c p = [])
   \<and> (\<forall>before after l missing.
         Env c = before @ p # after \<and> (\<forall>x\<in>set before. \<not> prefix p x) \<and> Labels c l = None
         \<longrightarrow> extractEnv c p = [] \<and> extractMetadata c l p missing = missing)"
proof -
  have a: "extractEnv c p = (case find (prefix p) (Env c) of None \<Rightarrow> [] | Some e \<Rightarrow> drop (length p) e)"
    by (simp add: extractEnv_def extractEnvLoop_find)
  have b: "extractEnv c p = r"
    if "Env c = before @ (p @ r) # after" and "\<forall>x\<in>set before. \<not> prefix p x"
    for before r after
    using that by (simp add: extractEnv_def extractEnvLoop_first)
  have c: "(\<forall>x\<in>set (Env c). \<not> prefix p x) \<longrightarrow> extractEnv c p = []"
    by (simp add: extractEnv_def extractEnvLoop_none)
  have d: "extractEnv c p = [] \<and> extractMetadata c l p missing = missing"
    if "Env c = before @ p # after" and "\<forall>x\<in>set before. \<not> prefix p x" and "Labels c l = None"
    for before after l missing
  proof -
    have "extractEnv c p = []" using b [of before "[]" after] that by simp
    then show ?thesis using that(3) by (simp add: extractMetadata_env)
  qed
  show ?thesis using a b c d by blast
qed

theorem extractEnv_first_match_witness:
  "extractEnv \<lparr>ID = ''c1'', Name = ''/web'', Labels = map_of [(''role'', ''db'')],
                Env = [''PATH=/bin'', ''KEY=one'', ''KEY=two'', ''EMPTY='', ''EMPTY=late'']\<rparr> ''KEY='' = ''one''
   \<and> extractEnv \<lparr>ID = ''c1'', Name = ''/web'', Labels = map_of [(''role'', ''db'')],
                Env = [''PATH=/bin'', ''KEY=one'', ''KEY=two'', ''EMPTY='', ''EMPTY=late'']\<rparr> ''OTHER='' = []
   \<and> extractEnv \<lparr>ID = ''c1'', Name = ''/web'', Labels = map_of [(''role'', ''db'')],
                Env = [''PATH=/bin'', ''KEY=one'', ''KEY=two'', ''EMPTY='', ''EMPTY=late'']\<rparr> ''EMPTY='' = []
   \<and> extractMetadata \<lparr>ID = ''c1'', Name = ''/web'', Labels = map_of [(''role'', ''db'')],
                Env = [''PATH=/bin'', ''KEY=one'', ''KEY=two'', ''EMPTY='', ''EMPTY=late'']\<rparr>
        ''absent'' ''EMPTY='' ''fallback'' = ''fallback''"
  (is "extractEnv ?c _ = _ \<and> _")
proof -
  have 1: "Env ?c = [''PATH=/bin''] @ (''KEY='' @ ''one'') # [''KEY=two'', ''EMPTY='', ''EMPTY=late'']
             \<and> (\<forall>x\<in>set [''PATH=/bin'']. \<not> prefix ''KEY='' x)"
    by simp
  have 2: "\<forall>x\<in>set (Env ?c). \<not> prefix ''OTHER='' x"
    by simp
  have 3: "Env ?c = [''PATH=/bin'', ''KEY=one'', ''KEY=two''] @ ''EMPTY='' # [''EMPTY=late'']
             \<and> (\<forall>x\<in>set [''PATH=/bin'', ''KEY=one'', ''KEY=two'']. \<not> prefix ''EMPTY='' x)
             \<and> Labels ?c ''absent'' = None"
    by simp
  from extractEnv_first_match [of ?c "''KEY=''"] 1 have a: "extractEnv ?c ''KEY='' = ''one''"
    by blast
  from extractEnv_first_match [of ?c "''OTHER=''"] 2 have b: "extractEnv ?c ''OTHER='' = []"
    by blast
  from extractEnv_first_match [of ?c "''EMPTY=''"] 3
  have c: "extractEnv ?c ''EMPTY='' = [] \<and> extractMetadata ?c ''absent'' ''EMPTY='' ''fallback'' = ''fallback''"
    by blast
  from a b c show ?thesis by blast
qed

subsection \<open>Identity resolution\<close>

lemmas config_defs =
  appLabel_def appLocationLabel_def taskLabel_def taskLocationLabel_def appEnvPrefix_def
  appEnvLocationPrefix_def appEnvLocationTrimPrefix_def taskEnvPrefix_def
  taskEnvLocationPrefix_def taskEnvLocationTrimPrefix_def defaultTask_def Getenv_def
  unset_env_def

lemmas resolve_defs =
  appResolved_def taskResolved_def extractApp_def extractTask_def extractMetadata_def
  extractEnv_def HasPrefix_def TrimPrefix_def

text \<open>
  C7. The trim prefix is read with \<open>extractEnv\<close> from the entry
  \<^verbatim>\<open>COLLECTD_DOCKER_APP_ENV_TRIM_PREFIX=\<close> for the app identity and from
  \<^verbatim>\<open>COLLECTD_DOCKER_TASK_ENV_TRIM_PREFIX=\<close> for the task identity, which are
  different keys. When that value is a prefix of the resolved identity, the resolved
  identity is the value followed by the final identity, that is, the final identity
  is the resolved one with that prefix taken off once; when it is not a prefix, the
  final identity is the resolved identity. (For the empty value both say the same.)
\<close>

theorem trim_prefix_once:
  "(prefix (extractEnv c appEnvLocationTrimPrefix) (appResolved penv c)
      \<longrightarrow> appResolved penv c = extractEnv c appEnvLocationTrimPrefix @ extractApp penv c)
   \<and> (\<not> prefix (extractEnv c appEnvLocationTrimPrefix) (appResolved penv c)
      \<longrightarrow> extractApp penv c = appResolved penv c)
   \<and> (prefix (extractEnv c taskEnvLocationTrimPrefix) (taskResolved penv c)
      \<longrightarrow> taskResolved penv c = extractEnv c taskEnvLocationTrimPrefix @ extractTask penv c)
   \<and> (\<not> prefix (extractEnv c taskEnvLocationTrimPrefix) (taskResolved penv c)
      \<longrightarrow> extractTask penv c = taskResolved penv c)
   \<and> appEnvLocationTrimPrefix \<noteq> taskEnvLocationTrimPrefix"
proof -
  have trim: "prefix p r \<Longrightarrow> r = p @ TrimPrefix r p" for p r :: string
    by (auto simp: prefix_def TrimPrefix_append)
  have keys: "appEnvLocationTrimPrefix \<noteq> taskEnvLocationTrimPrefix"
    by (simp add: appEnvLocationTrimPrefix_def taskEnvLocationTrimPrefix_def)
  show ?thesis
    using trim keys by (simp add: extractApp_appResolved extractTask_taskResolved TrimPrefix_other)
qed

theorem trim_prefix_once_witness:
  "extractApp unset_env
     \<lparr>ID = ''c2'', Name = ''/api'',
      Labels = map_of [(''app_id'', ''/prod/prod/api''), (''collectd_docker_task'', ''api-1'')],
      Env = [''COLLECTD_DOCKER_APP_ENV_TRIM_PREFIX=/prod'',
             ''COLLECTD_DOCKER_TASK_ENV_TRIM_PREFIX=web'']\<rparr> = ''/prod/api''
   \<and> extractTask unset_env
     \<lparr>ID = ''c2'', Name = ''/api'',
      Labels = map_of [(''app_id'', ''/prod/prod/api''), (''collectd_docker_task'', ''api-1'')],
      Env = [''COLLECTD_DOCKER_APP_ENV_TRIM_PREFIX=/prod'',
             ''COLLECTD_DOCKER_TASK_ENV_TRIM_PREFIX=web'']\<rparr> = ''api-1''"
  (is "extractApp _ ?c = _ \<and> _")
proof -
  have p: "extractEnv ?c appEnvLocationTrimPrefix = ''/prod''"
    by (simp add: config_defs resolve_defs)
  have q: "extractEnv ?c taskEnvLocationTrimPrefix = ''web''"
    by (simp add: config_defs resolve_defs)
  have r: "appResolved unset_env ?c = ''/prod/prod/api''"
    by (simp add: config_defs resolve_defs)
  have t: "taskResolved unset_env ?c = ''api-1''"
    by (simp add: config_defs resolve_defs)
  have 1: "prefix (extractEnv ?c appEnvLocationTrimPrefix) (appResolved unset_env ?c)"
    unfolding p r by simp
  have 2: "\<not> prefix (extractEnv ?c taskEnvLocationTrimPrefix) (taskResolved unset_env ?c)"
    unfolding q t by simp
  from trim_prefix_once [of ?c unset_env] 1
  have "appResolved unset_env ?c = extractEnv ?c appEnvLocationTrimPrefix @ extractApp unset_env ?c"
    by blast
  then have a: "extractApp unset_env ?c = ''/prod/api''"
    unfolding p r by simp
  from trim_prefix_once [of ?c unset_env] 2
  have "extractTask unset_env ?c = taskResolved unset_env ?c"
    by blast
  then have b: "extractTask unset_env ?c = ''api-1''"
    unfolding t by simp
  from a b show ?thesis by blast
qed

lemma TrimPrefix_empty: "TrimPrefix [] pre = []"
  by (simp add: TrimPrefix_def)

text \<open>
  C6. A location label with a non-empty value \<open>n\<close>, where the container has a
  label \<open>n\<close> with value \<open>v\<close>, resolves the identity to \<open>v\<close>, whatever the direct
  label and the environment hold: \<open>extractApp\<close> and \<open>extractTask\<close> return \<open>v\<close>
  after their trim step. In one lookup step (\<open>extractMetadata\<close>) a label that is
  present is the result, whatever the environment holds. When the location label is
  absent, the location environment entry gives nothing, the direct label is absent
  and the direct environment entry gives nothing, the app identity resolves to the
  empty string, which \<open>extractApp\<close> returns, and the task identity to
  \<^verbatim>\<open>default\<close>, which \<open>extractTask\<close> returns after its trim step.
\<close>

theorem resolution_precedence:
  "(Labels c appLocationLabel = Some n \<and> n \<noteq> [] \<and> Labels c n = Some v
      \<longrightarrow> appResolved penv c = v
        \<and> extractApp penv c = TrimPrefix v (extractEnv c appEnvLocationTrimPrefix))
   \<and> (Labels c taskLocationLabel = Some n \<and> n \<noteq> [] \<and> Labels c n = Some v
      \<longrightarrow> taskResolved penv c = v
        \<and> extractTask penv c = TrimPrefix v (extractEnv c taskEnvLocationTrimPrefix))
   \<and> (Labels c l = Some v \<longrightarrow> extractMetadata c l p missing = v)
   \<and> (Labels c appLocationLabel = None \<and> extractEnv c appEnvLocationPrefix = []
       \<and> Labels c (appLabel penv) = None \<and> extractEnv c (appEnvPrefix penv) = []
      \<longrightarrow> appResolved penv c = [] \<and> extractApp penv c = [])
   \<and> (Labels c taskLocationLabel = None \<and> extractEnv c taskEnvLocationPrefix = []
       \<and> Labels c (taskLabel penv) = None \<and> extractEnv c (taskEnvPrefix penv) = []
      \<longrightarrow> taskResolved penv c = ''default''
        \<and> extractTask penv c = TrimPrefix ''default'' (extractEnv c taskEnvLocationTrimPrefix))"
proof -
  have 1: "Labels c appLocationLabel = Some n \<and> n \<noteq> [] \<and> Labels c n = Some v
      \<longrightarrow> appResolved penv c = v"
    by (simp add: appResolved_def extractMetadata_label)
  have 2: "Labels c taskLocationLabel = Some n \<and> n \<noteq> [] \<and> Labels c n = Some v
      \<longrightarrow> taskResolved penv c = v"
    by (simp add: taskResolved_def extractMetadata_label)
  have 3: "Labels c l = Some v \<longrightarrow> extractMetadata c l p missing = v"
    by (simp add: extractMetadata_label)
  have 4: "Labels c appLocationLabel = None \<and> extractEnv c appEnvLocationPrefix = []
       \<and> Labels c (appLabel penv) = None \<and> extractEnv c (appEnvPrefix penv) = []
      \<longrightarrow> appResolved penv c = []"
    by (simp add: appResolved_def extractMetadata_env)
  have 5: "Labels c taskLocationLabel = None \<and> extractEnv c taskEnvLocationPrefix = []
       \<and> Labels c (taskLabel penv) = None \<and> extractEnv c (taskEnvPrefix penv) = []
      \<longrightarrow> taskResolved penv c = ''default''"
    by (simp add: taskResolved_def extractMetadata_env defaultTask_def)
  have a: "appResolved penv c = x \<Longrightarrow>
           extractApp penv c = TrimPrefix x (extractEnv c appEnvLocationTrimPrefix)" for x
    by (simp add: extractApp_appResolved)
  have t: "taskResolved penv c = x \<Longrightarrow>
           extractTask penv c = TrimPrefix x (extractEnv c taskEnvLocationTrimPrefix)" for x
    by (simp add: extractTask_taskResolved)
  have e: "appResolved penv c = [] \<Longrightarrow> extractApp penv c = []"
    by (simp add: extractApp_appResolved TrimPrefix_empty)
  from 1 2 3 4 5 a t e show ?thesis by blast
qed

theorem resolution_precedence_witness:
  "extractApp unset_env
     \<lparr>ID = ''c4'', Name = ''/svc'',
      Labels = map_of [(''collectd_docker_app_label'', ''service''), (''service'', ''svc-42''),
                       (''app_id'', ''other'')],
      Env = [''MARATHON_APP_ID=/from/env'', ''service=env-value'']\<rparr> = ''svc-42''
   \<and> extractMetadata
     \<lparr>ID = ''c4'', Name = ''/svc'',
      Labels = map_of [(''collectd_docker_app_label'', ''service''), (''service'', ''svc-42''),
                       (''app_id'', ''other'')],
      Env = [''MARATHON_APP_ID=/from/env'', ''service=env-value'']\<rparr>
      ''app_id'' ''MARATHON_APP_ID='' [] = ''other''
   \<and> extractTask unset_env
     \<lparr>ID = ''c4'', Name = ''/svc'',
      Labels = map_of [(''collectd_docker_app_label'', ''service''), (''service'', ''svc-42''),
                       (''app_id'', ''other'')],
      Env = [''MARATHON_APP_ID=/from/env'', ''service=env-value'']\<rparr> = ''default''
   \<and> extractApp unset_env
     \<lparr>ID = ''c5'', Name = ''/bare'', Labels = map_of [(''role'', ''db'')],
      Env = [''PATH=/bin'', ''COLLECTD_DOCKER_TASK_ENV_TRIM_PREFIX=de'']\<rparr> = []
   \<and> extractTask unset_env
     \<lparr>ID = ''c5'', Name = ''/bare'', Labels = map_of [(''role'', ''db'')],
      Env = [''PATH=/bin'', ''COLLECTD_DOCKER_TASK_ENV_TRIM_PREFIX=de'']\<rparr> = ''fault''"
  (is "extractApp _ ?c = _ \<and> _ \<and> _ \<and> extractApp _ ?d = _ \<and> _")
proof -
  have h1: "Labels ?c appLocationLabel = Some ''service'' \<and> ''service'' \<noteq> []
            \<and> Labels ?c ''service'' = Some ''svc-42''"
    by (simp add: config_defs)
  have h3: "Labels ?c ''app_id'' = Some ''other''"
    by simp
  have h5: "Labels ?c taskLocationLabel = None \<and> extractEnv ?c taskEnvLocationPrefix = []
            \<and> Labels ?c (taskLabel unset_env) = None \<and> extractEnv ?c (taskEnvPrefix unset_env) = []"
    by (simp add: config_defs resolve_defs)
  have h4: "Labels ?d appLocationLabel = None \<and> extractEnv ?d appEnvLocationPrefix = []
            \<and> Labels ?d (appLabel unset_env) = None \<and> extractEnv ?d (appEnvPrefix unset_env) = []"
    by (simp add: config_defs resolve_defs)
  have h6: "Labels ?d taskLocationLabel = None \<and> extractEnv ?d taskEnvLocationPrefix = []
            \<and> Labels ?d (taskLabel unset_env) = None \<and> extractEnv ?d (taskEnvPrefix unset_env) = []"
    by (simp add: config_defs resolve_defs)
  have ta: "extractEnv ?c appEnvLocationTrimPrefix = []"
    by (simp add: config_defs resolve_defs)
  have tt: "extractEnv ?c taskEnvLocationTrimPrefix = []"
    by (simp add: config_defs resolve_defs)
  have td: "extractEnv ?d taskEnvLocationTrimPrefix = ''de''"
    by (simp add: config_defs resolve_defs)
  note c = resolution_precedence [of ?c "''service''" "''svc-42''" unset_env "''app_id''"
             "''MARATHON_APP_ID=''" "[]"]
  note c' = resolution_precedence [of ?c "''service''" "''other''" unset_env "''app_id''"
             "''MARATHON_APP_ID=''" "[]"]
  note d = resolution_precedence [of ?d "''service''" "''svc-42''" unset_env "''app_id''"
             "''MARATHON_APP_ID=''" "[]"]
  from c [THEN conjunct1] h1
  have "appResolved unset_env ?c = ''svc-42''
        \<and> extractApp unset_env ?c = TrimPrefix ''svc-42'' (extractEnv ?c appEnvLocationTrimPrefix)"
    by (rule mp)
  then have a: "extractApp unset_env ?c = ''svc-42''"
    unfolding ta by (simp add: TrimPrefix_Nil)
  from c' [THEN conjunct2, THEN conjunct2, THEN conjunct1] h3
  have b: "extractMetadata ?c ''app_id'' ''MARATHON_APP_ID='' [] = ''other''"
    by (rule mp)
  from c [THEN conjunct2, THEN conjunct2, THEN conjunct2, THEN conjunct2] h5
  have "taskResolved unset_env ?c = ''default''
        \<and> extractTask unset_env ?c = TrimPrefix ''default'' (extractEnv ?c taskEnvLocationTrimPrefix)"
    by (rule mp)
  then have e: "extractTask unset_env ?c = ''default''"
    unfolding tt by (simp add: TrimPrefix_Nil)
  from d [THEN conjunct2, THEN conjunct2, THEN conjunct2, THEN conjunct1] h4
  have "appResolved unset_env ?d = [] \<and> extractApp unset_env ?d = []"
    by (rule mp)
  then have f: "extractApp unset_env ?d = []" by (rule conjunct2)
  from d [THEN conjunct2, THEN conjunct2, THEN conjunct2, THEN conjunct2] h6
  have "taskResolved unset_env ?d = ''default''
        \<and> extractTask unset_env ?d = TrimPrefix ''default'' (extractEnv ?d taskEnvLocationTrimPrefix)"
    by (rule mp)
  then have g: "extractTask unset_env ?d = ''fault''"
    unfolding td by (simp add: TrimPrefix_def HasPrefix_def)
  from a b e f g show ?thesis by (intro conjI)
qed

text \<open>
  C1, as the claim states it, fails: the container below has the location label with
  value \<^verbatim>\<open>service\<close>, neither a label \<^verbatim>\<open>service\<close> nor an environment entry
  \<^verbatim>\<open>service=\<close>, and both the direct label \<^verbatim>\<open>app_id\<close> and the direct
  environment entry \<^verbatim>\<open>MARATHON_APP_ID=\<close>. The direct label and entry are not
  consulted: the app identity resolves to the empty string.
\<close>

theorem location_dangling_counterexample:
  "Labels \<lparr>ID = ''c6'', Name = ''/dangling'',
           Labels = map_of [(''collectd_docker_app_label'', ''service''), (''app_id'', ''/infra/api'')],
           Env = [''MARATHON_APP_ID=/from/env'']\<rparr> appLocationLabel = Some ''service''
   \<and> Labels \<lparr>ID = ''c6'', Name = ''/dangling'',
           Labels = map_of [(''collectd_docker_app_label'', ''service''), (''app_id'', ''/infra/api'')],
           Env = [''MARATHON_APP_ID=/from/env'']\<rparr> ''service'' = None
   \<and> extractEnv \<lparr>ID = ''c6'', Name = ''/dangling'',
           Labels = map_of [(''collectd_docker_app_label'', ''service''), (''app_id'', ''/infra/api'')],
           Env = [''MARATHON_APP_ID=/from/env'']\<rparr> ''service='' = []
   \<and> Labels \<lparr>ID = ''c6'', Name = ''/dangling'',
           Labels = map_of [(''collectd_docker_app_label'', ''service''), (''app_id'', ''/infra/api'')],
           Env = [''MARATHON_APP_ID=/from/env'']\<rparr> (appLabel unset_env) = Some ''/infra/api''
   \<and> extractEnv \<lparr>ID = ''c6'', Name = ''/dangling'',
           Labels = map_of [(''collectd_docker_app_label'', ''service''), (''app_id'', ''/infra/api'')],
           Env = [''MARATHON_APP_ID=/from/env'']\<rparr> (appEnvPrefix unset_env) = ''/from/env''
   \<and> appResolved unset_env \<lparr>ID = ''c6'', Name = ''/dangling'',
           Labels = map_of [(''collectd_docker_app_label'', ''service''), (''app_id'', ''/infra/api'')],
           Env = [''MARATHON_APP_ID=/from/env'']\<rparr> = []
   \<and> extractApp unset_env \<lparr>ID = ''c6'', Name = ''/dangling'',
           Labels = map_of [(''collectd_docker_app_label'', ''service''), (''app_id'', ''/infra/api'')],
           Env = [''MARATHON_APP_ID=/from/env'']\<rparr> \<noteq> ''/infra/api''"
  by (simp add: config_defs resolve_defs)

text \<open>
  C1, amended. \<open>extractApp\<close> and \<open>extractTask\<close> first find a location name: the
  value of the location label when that label is present, otherwise what the
  location environment entry gives. When the location name \<open>n\<close> is not empty, the
  identity is the value of the label \<open>n\<close> when the container has it, otherwise what
  the environment entry with prefix \<open>n\<close>\<^verbatim>\<open>=\<close> gives, and when that is nothing the
  missing value (the empty string for the app, \<^verbatim>\<open>default\<close> for the task); the
  direct label and the direct environment entry are not consulted. When the location
  name is empty, the identity is the value of the direct label when the container
  has it, otherwise what the direct environment entry gives, and when that is nothing
  the missing value. What the two functions return is that identity after the trim
  step.
\<close>

theorem resolution_by_location:
  "(n \<noteq> [] \<and> (Labels c appLocationLabel = Some n
               \<or> Labels c appLocationLabel = None \<and> extractEnv c appEnvLocationPrefix = n)
      \<longrightarrow> (\<forall>v. Labels c n = Some v
                \<longrightarrow> extractApp penv c = TrimPrefix v (extractEnv c appEnvLocationTrimPrefix))
          \<and> (Labels c n = None
                \<longrightarrow> extractApp penv c =
                      TrimPrefix (extractEnv c (n @ ''='')) (extractEnv c appEnvLocationTrimPrefix))
          \<and> (Labels c n = None \<and> extractEnv c (n @ ''='') = [] \<longrightarrow> extractApp penv c = []))
   \<and> (Labels c appLocationLabel = Some []
        \<or> Labels c appLocationLabel = None \<and> extractEnv c appEnvLocationPrefix = []
      \<longrightarrow> (\<forall>v. Labels c (appLabel penv) = Some v
                \<longrightarrow> extractApp penv c = TrimPrefix v (extractEnv c appEnvLocationTrimPrefix))
          \<and> (Labels c (appLabel penv) = None
                \<longrightarrow> extractApp penv c =
                      TrimPrefix (extractEnv c (appEnvPrefix penv))
                        (extractEnv c appEnvLocationTrimPrefix)))
   \<and> (n \<noteq> [] \<and> (Labels c taskLocationLabel = Some n
               \<or> Labels c taskLocationLabel = None \<and> extractEnv c taskEnvLocationPrefix = n)
      \<longrightarrow> (\<forall>v. Labels c n = Some v
                \<longrightarrow> extractTask penv c = TrimPrefix v (extractEnv c taskEnvLocationTrimPrefix))
          \<and> (Labels c n = None
                \<longrightarrow> extractTask penv c =
                      TrimPrefix
                        (if extractEnv c (n @ ''='') \<noteq> [] then extractEnv c (n @ ''='')
                         else ''default'')
                        (extractEnv c taskEnvLocationTrimPrefix)))
   \<and> (Labels c taskLocationLabel = Some []
        \<or> Labels c taskLocationLabel = None \<and> extractEnv c taskEnvLocationPrefix = []
      \<longrightarrow> (\<forall>v. Labels c (taskLabel penv) = Some v
                \<longrightarrow> extractTask penv c = TrimPrefix v (extractEnv c taskEnvLocationTrimPrefix))
          \<and> (Labels c (taskLabel penv) = None
                \<longrightarrow> extractTask penv c =
                      TrimPrefix
                        (if extractEnv c (taskEnvPrefix penv) \<noteq> []
                         then extractEnv c (taskEnvPrefix penv) else ''default'')
                        (extractEnv c taskEnvLocationTrimPrefix)))"
proof -
  let ?ta = "extractEnv c appEnvLocationTrimPrefix"
  let ?tt = "extractEnv c taskEnvLocationTrimPrefix"
  have la: "extractMetadata c appLocationLabel appEnvLocationPrefix [] = m"
    if "Labels c appLocationLabel = Some m
        \<or> Labels c appLocationLabel = None \<and> extractEnv c appEnvLocationPrefix = m" for m
    using that by (auto simp: extractMetadata_label extractMetadata_env)
  have lt: "extractMetadata c taskLocationLabel taskEnvLocationPrefix [] = m"
    if "Labels c taskLocationLabel = Some m
        \<or> Labels c taskLocationLabel = None \<and> extractEnv c taskEnvLocationPrefix = m" for m
    using that by (auto simp: extractMetadata_label extractMetadata_env)
  have r1: "n \<noteq> [] \<and> (Labels c appLocationLabel = Some n
               \<or> Labels c appLocationLabel = None \<and> extractEnv c appEnvLocationPrefix = n)
      \<longrightarrow> (\<forall>v. Labels c n = Some v \<longrightarrow> appResolved penv c = v)
          \<and> (Labels c n = None \<longrightarrow> appResolved penv c = extractEnv c (n @ ''=''))"
    using la [of n] by (auto simp: appResolved_def extractMetadata_label extractMetadata_env)
  have r2: "Labels c appLocationLabel = Some []
        \<or> Labels c appLocationLabel = None \<and> extractEnv c appEnvLocationPrefix = []
      \<longrightarrow> (\<forall>v. Labels c (appLabel penv) = Some v \<longrightarrow> appResolved penv c = v)
          \<and> (Labels c (appLabel penv) = None
               \<longrightarrow> appResolved penv c = extractEnv c (appEnvPrefix penv))"
    using la [of "[]"] by (auto simp: appResolved_def extractMetadata_label extractMetadata_env)
  have r3: "n \<noteq> [] \<and> (Labels c taskLocationLabel = Some n
               \<or> Labels c taskLocationLabel = None \<and> extractEnv c taskEnvLocationPrefix = n)
      \<longrightarrow> (\<forall>v. Labels c n = Some v \<longrightarrow> taskResolved penv c = v)
          \<and> (Labels c n = None \<longrightarrow> taskResolved penv c =
                (if extractEnv c (n @ ''='') \<noteq> [] then extractEnv c (n @ ''='') else ''default''))"
    using lt [of n]
    by (auto simp: taskResolved_def extractMetadata_label extractMetadata_env defaultTask_def)
  have r4: "Labels c taskLocationLabel = Some []
        \<or> Labels c taskLocationLabel = None \<and> extractEnv c taskEnvLocationPrefix = []
      \<longrightarrow> (\<forall>v. Labels c (taskLabel penv) = Some v \<longrightarrow> taskResolved penv c = v)
          \<and> (Labels c (taskLabel penv) = None \<longrightarrow> taskResolved penv c =
                (if extractEnv c (taskEnvPrefix penv) \<noteq> [] then extractEnv c (taskEnvPrefix penv)
                 else ''default''))"
    using lt [of "[]"]
    by (auto simp: taskResolved_def extractMetadata_label extractMetadata_env defaultTask_def)
  have 1: "n \<noteq> [] \<and> (Labels c appLocationLabel = Some n
               \<or> Labels c appLocationLabel = None \<and> extractEnv c appEnvLocationPrefix = n)
      \<longrightarrow> (\<forall>v. Labels c n = Some v \<longrightarrow> extractApp penv c = TrimPrefix v ?ta)
          \<and> (Labels c n = None
                \<longrightarrow> extractApp penv c = TrimPrefix (extractEnv c (n @ ''='')) ?ta)
          \<and> (Labels c n = None \<and> extractEnv c (n @ ''='') = [] \<longrightarrow> extractApp penv c = [])"
    using r1 by (auto simp: extractApp_appResolved TrimPrefix_empty)
  have 2: "Labels c appLocationLabel = Some []
        \<or> Labels c appLocationLabel = None \<and> extractEnv c appEnvLocationPrefix = []
      \<longrightarrow> (\<forall>v. Labels c (appLabel penv) = Some v \<longrightarrow> extractApp penv c = TrimPrefix v ?ta)
          \<and> (Labels c (appLabel penv) = None
                \<longrightarrow> extractApp penv c = TrimPrefix (extractEnv c (appEnvPrefix penv)) ?ta)"
    using r2 by (auto simp: extractApp_appResolved)
  have 3: "n \<noteq> [] \<and> (Labels c taskLocationLabel = Some n
               \<or> Labels c taskLocationLabel = None \<and> extractEnv c taskEnvLocationPrefix = n)
      \<longrightarrow> (\<forall>v. Labels c n = Some v \<longrightarrow> extractTask penv c = TrimPrefix v ?tt)
          \<and> (Labels c n = None
                \<longrightarrow> extractTask penv c =
                      TrimPrefix
                        (if extractEnv c (n @ ''='') \<noteq> [] then extractEnv c (n @ ''='')
                         else ''default'') ?tt)"
    using r3 by (auto simp: extractTask_taskResolved)
  have 4: "Labels c taskLocationLabel = Some []
        \<or> Labels c taskLocationLabel = None \<and> extractEnv c taskEnvLocationPrefix = []
      \<longrightarrow> (\<forall>v. Labels c (taskLabel penv) = Some v \<longrightarrow> extractTask penv c = TrimPrefix v ?tt)
          \<and> (Labels c (taskLabel penv) = None
                \<longrightarrow> extractTask penv c =
                      TrimPrefix
                        (if extractEnv c (taskEnvPrefix penv) \<noteq> []
                         then extractEnv c (taskEnvPrefix penv) else ''default'') ?tt)"
    using r4 by (auto simp: extractTask_taskResolved)
  from 1 2 3 4 show ?thesis by (intro conjI)
qed

theorem resolution_by_location_witness:
  "extractApp unset_env
     \<lparr>ID = ''c7'', Name = ''/loc'',
      Labels = map_of [(''collectd_docker_app_label'', ''service''), (''app_id'', ''/infra/api''),
                       (''collectd_docker_task'', ''direct-task'')],
      Env = [''MARATHON_APP_ID=/from/env'', ''COLLECTD_DOCKER_TASK_ENV=TNAME'']\<rparr> = []
   \<and> extractTask unset_env
     \<lparr>ID = ''c7'', Name = ''/loc'',
      Labels = map_of [(''collectd_docker_app_label'', ''service''), (''app_id'', ''/infra/api''),
                       (''collectd_docker_task'', ''direct-task'')],
      Env = [''MARATHON_APP_ID=/from/env'', ''COLLECTD_DOCKER_TASK_ENV=TNAME'']\<rparr> = ''default''
   \<and> extractApp unset_env
     \<lparr>ID = ''c8'', Name = ''/direct'',
      Labels = map_of [(''collectd_docker_task'', ''direct-task'')],
      Env = [''MARATHON_APP_ID=/from/env'', ''COLLECTD_DOCKER_APP_ENV_TRIM_PREFIX=/from'']\<rparr>
       = ''/env''
   \<and> extractTask unset_env
     \<lparr>ID = ''c8'', Name = ''/direct'',
      Labels = map_of [(''collectd_docker_task'', ''direct-task'')],
      Env = [''MARATHON_APP_ID=/from/env'', ''COLLECTD_DOCKER_APP_ENV_TRIM_PREFIX=/from'']\<rparr>
       = ''direct-task''"
  (is "extractApp _ ?c = _ \<and> extractTask _ ?c = _ \<and> extractApp _ ?d = _ \<and> _")
proof -
  have h1: "''service'' \<noteq> [] \<and> (Labels ?c appLocationLabel = Some ''service''
              \<or> Labels ?c appLocationLabel = None \<and> extractEnv ?c appEnvLocationPrefix = ''service'')"
    by (simp add: config_defs)
  have h1': "Labels ?c ''service'' = None \<and> extractEnv ?c (''service'' @ ''='') = []"
    by (simp add: resolve_defs)
  have h3: "''TNAME'' \<noteq> [] \<and> (Labels ?c taskLocationLabel = Some ''TNAME''
              \<or> Labels ?c taskLocationLabel = None \<and> extractEnv ?c taskEnvLocationPrefix = ''TNAME'')"
    by (simp add: config_defs resolve_defs)
  have h3': "Labels ?c ''TNAME'' = None"
    by simp
  have e3: "extractEnv ?c (''TNAME'' @ ''='') = []"
    by (simp add: resolve_defs)
  have tc: "extractEnv ?c taskEnvLocationTrimPrefix = []"
    by (simp add: config_defs resolve_defs)
  have h2: "Labels ?d appLocationLabel = Some []
              \<or> Labels ?d appLocationLabel = None \<and> extractEnv ?d appEnvLocationPrefix = []"
    by (simp add: config_defs resolve_defs)
  have h2': "Labels ?d (appLabel unset_env) = None"
    by (simp add: config_defs)
  have e2: "extractEnv ?d (appEnvPrefix unset_env) = ''/from/env''"
    by (simp add: config_defs resolve_defs)
  have ta: "extractEnv ?d appEnvLocationTrimPrefix = ''/from''"
    by (simp add: config_defs resolve_defs)
  have h4: "Labels ?d taskLocationLabel = Some []
              \<or> Labels ?d taskLocationLabel = None \<and> extractEnv ?d taskEnvLocationPrefix = []"
    by (simp add: config_defs resolve_defs)
  have h4': "Labels ?d (taskLabel unset_env) = Some ''direct-task''"
    by (simp add: config_defs)
  have td: "extractEnv ?d taskEnvLocationTrimPrefix = []"
    by (simp add: config_defs resolve_defs)
  note s = resolution_by_location [of "''service''" ?c unset_env]
  note u = resolution_by_location [of "''TNAME''" ?c unset_env]
  note d = resolution_by_location [of "''service''" ?d unset_env]
  from s [THEN conjunct1] h1
  have "(\<forall>v. Labels ?c ''service'' = Some v
            \<longrightarrow> extractApp unset_env ?c = TrimPrefix v (extractEnv ?c appEnvLocationTrimPrefix))
        \<and> (Labels ?c ''service'' = None
            \<longrightarrow> extractApp unset_env ?c =
                  TrimPrefix (extractEnv ?c (''service'' @ ''=''))
                    (extractEnv ?c appEnvLocationTrimPrefix))
        \<and> (Labels ?c ''service'' = None \<and> extractEnv ?c (''service'' @ ''='') = []
            \<longrightarrow> extractApp unset_env ?c = [])"
    by (rule mp)
  from this [THEN conjunct2, THEN conjunct2] h1'
  have a: "extractApp unset_env ?c = []"
    by (rule mp)
  from u [THEN conjunct2, THEN conjunct2, THEN conjunct1] h3
  have "(\<forall>v. Labels ?c ''TNAME'' = Some v
            \<longrightarrow> extractTask unset_env ?c = TrimPrefix v (extractEnv ?c taskEnvLocationTrimPrefix))
        \<and> (Labels ?c ''TNAME'' = None
            \<longrightarrow> extractTask unset_env ?c =
                  TrimPrefix
                    (if extractEnv ?c (''TNAME'' @ ''='') \<noteq> [] then extractEnv ?c (''TNAME'' @ ''='')
                     else ''default'')
                    (extractEnv ?c taskEnvLocationTrimPrefix))"
    by (rule mp)
  from this [THEN conjunct2] h3'
  have "extractTask unset_env ?c =
          TrimPrefix
            (if extractEnv ?c (''TNAME'' @ ''='') \<noteq> [] then extractEnv ?c (''TNAME'' @ ''='')
             else ''default'')
            (extractEnv ?c taskEnvLocationTrimPrefix)"
    by (rule mp)
  then have b: "extractTask unset_env ?c = ''default''"
    unfolding e3 tc by (simp add: TrimPrefix_Nil)
  from d [THEN conjunct2, THEN conjunct1] h2
  have "(\<forall>v. Labels ?d (appLabel unset_env) = Some v
            \<longrightarrow> extractApp unset_env ?d = TrimPrefix v (extractEnv ?d appEnvLocationTrimPrefix))
        \<and> (Labels ?d (appLabel unset_env) = None
            \<longrightarrow> extractApp unset_env ?d =
                  TrimPrefix (extractEnv ?d (appEnvPrefix unset_env))
                    (extractEnv ?d appEnvLocationTrimPrefix))"
    by (rule mp)
  from this [THEN conjunct2] h2'
  have "extractApp unset_env ?d =
          TrimPrefix (extractEnv ?d (appEnvPrefix unset_env)) (extractEnv ?d appEnvLocationTrimPrefix)"
    by (rule mp)
  then have c: "extractApp unset_env ?d = ''/env''"
    unfolding e2 ta by (simp add: TrimPrefix_def HasPrefix_def)
  from d [THEN conjunct2, THEN conjunct2, THEN conjunct2] h4
  have "(\<forall>v. Labels ?d (taskLabel unset_env) = Some v
            \<longrightarrow> extractTask unset_env ?d = TrimPrefix v (extractEnv ?d taskEnvLocationTrimPrefix))
        \<and> (Labels ?d (taskLabel unset_env) = None
            \<longrightarrow> extractTask unset_env ?d =
                  TrimPrefix
                    (if extractEnv ?d (taskEnvPrefix unset_env) \<noteq> []
                     then extractEnv ?d (taskEnvPrefix unset_env) else ''default'')
                    (extractEnv ?d taskEnvLocationTrimPrefix))"
    by (rule mp)
  from this [THEN conjunct1, rule_format, OF h4']
  have "extractTask unset_env ?d = TrimPrefix ''direct-task'' (extractEnv ?d taskEnvLocationTrimPrefix)" .
  then have e: "extractTask unset_env ?d = ''direct-task''"
    unfolding td by (simp add: TrimPrefix_Nil)
  from a b c e show ?thesis by (intro conjI)
qed

subsection \<open>Monitor construction\<close>

lemma NewMonitor_Inr:
  "InspectContainer cl ident = Inr ct \<Longrightarrow> extractApp penv ct \<noteq> [] \<Longrightarrow>
   NewMonitor penv cl ident ival =
     Inr \<lparr>client = cl, id' = ID ct, app = extractApp penv ct, task = extractTask penv ct,
          tags = extractTagsFromTask (extractTagsFromApp Map.empty (extractApp penv ct))
                   (extractTask penv ct),
          interval = ival\<rparr>"
  by (simp add: NewMonitor_def Let_def)

text \<open>
  C8. When the client's inspection returns an error, \<open>NewMonitor\<close> returns that
  error and no monitor. When inspection returns a container whose app identity is
  empty, it returns \<open>ErrNoNeedToMonitor\<close> and no monitor, and that value differs
  from every error of an inspection. When inspection returns a container whose app
  identity is not empty, it returns a monitor, with the container's id and the two
  identities, and no error.
\<close>

theorem NewMonitor_outcomes:
  "(InspectContainer cl ident = Inl e \<longrightarrow> NewMonitor penv cl ident ival = Inl (InspectError e))
   \<and> (InspectContainer cl ident = Inr ct \<and> extractApp penv ct = []
        \<longrightarrow> NewMonitor penv cl ident ival = Inl ErrNoNeedToMonitor)
   \<and> (InspectContainer cl ident = Inr ct \<and> extractApp penv ct \<noteq> []
        \<longrightarrow> (\<exists>m. NewMonitor penv cl ident ival = Inr m \<and> id' m = ID ct
                 \<and> app m = extractApp penv ct \<and> task m = extractTask penv ct))
   \<and> ErrNoNeedToMonitor \<noteq> InspectError e"
proof -
  have 1: "InspectContainer cl ident = Inl e \<longrightarrow> NewMonitor penv cl ident ival = Inl (InspectError e)"
    by (simp add: NewMonitor_def)
  have 2: "InspectContainer cl ident = Inr ct \<and> extractApp penv ct = []
        \<longrightarrow> NewMonitor penv cl ident ival = Inl ErrNoNeedToMonitor"
    by (simp add: NewMonitor_def)
  have 3: "InspectContainer cl ident = Inr ct \<and> extractApp penv ct \<noteq> []
        \<longrightarrow> (\<exists>m. NewMonitor penv cl ident ival = Inr m \<and> id' m = ID ct
                 \<and> app m = extractApp penv ct \<and> task m = extractTask penv ct)"
    by (simp add: NewMonitor_Inr)
  have 4: "ErrNoNeedToMonitor \<noteq> InspectError e"
    by simp
  from 1 2 3 4 show ?thesis by blast
qed

theorem NewMonitor_outcomes_witness:
  "NewMonitor unset_env exampleClient ''gone'' 10 = Inl (InspectError ''no such container'')
   \<and> NewMonitor unset_env exampleClient ''bare'' 10 = Inl ErrNoNeedToMonitor
   \<and> (\<exists>m. NewMonitor unset_env exampleClient ''web'' 10 = Inr m \<and> id' m = ''web-full-id''
          \<and> app m = ''/infra/web'' \<and> task m = ''default'')"
proof -
  let ?web = "\<lparr>ID = ''web-full-id'', Name = ''/web'',
               Labels = map_of [(''app_id'', ''/infra/web'')], Env = [''PATH=/bin'']\<rparr>"
  let ?bare = "\<lparr>ID = ''bare-full-id'', Name = ''/bare'', Labels = map_of [], Env = []\<rparr>"
  have g: "InspectContainer exampleClient ''gone'' = Inl ''no such container''"
    by (simp add: exampleClient_def)
  have b: "InspectContainer exampleClient ''bare'' = Inr ?bare \<and> extractApp unset_env ?bare = []"
    by (simp add: exampleClient_def config_defs resolve_defs)
  have w: "InspectContainer exampleClient ''web'' = Inr ?web \<and> extractApp unset_env ?web \<noteq> []"
    by (simp add: exampleClient_def config_defs resolve_defs)
  have wa: "extractApp unset_env ?web = ''/infra/web''"
    by (simp add: config_defs resolve_defs)
  have wt: "extractTask unset_env ?web = ''default''"
    by (simp add: config_defs resolve_defs)
  from NewMonitor_outcomes [of exampleClient "''gone''" "''no such container''" unset_env 10] g
  have 1: "NewMonitor unset_env exampleClient ''gone'' 10 = Inl (InspectError ''no such container'')"
    by blast
  from NewMonitor_outcomes [of exampleClient "''bare''" _ unset_env 10 ?bare] b
  have 2: "NewMonitor unset_env exampleClient ''bare'' 10 = Inl ErrNoNeedToMonitor"
    by blast
  from NewMonitor_outcomes [of exampleClient "''web''" _ unset_env 10 ?web] w
  have "\<exists>m. NewMonitor unset_env exampleClient ''web'' 10 = Inr m \<and> id' m = ID ?web
          \<and> app m = extractApp unset_env ?web \<and> task m = extractTask unset_env ?web"
    by blast
  then have 3: "\<exists>m. NewMonitor unset_env exampleClient ''web'' 10 = Inr m \<and> id' m = ''web-full-id''
          \<and> app m = ''/infra/web'' \<and> task m = ''default''"
    unfolding wa wt by simp
  from 1 2 3 show ?thesis by blast
qed

subsection \<open>The sampler\<close>

lemma sampleLoop_zero: "sampleLoop 0 tgs i (s # rest) = ([], Some DivideByZero)"
  by (simp add: rem_def)

lemma sampleLoop_panic_iff:
  "snd (sampleLoop k tgs i xs) = Some DivideByZero \<longleftrightarrow> k = 0 \<and> xs \<noteq> []"
proof (induction xs arbitrary: i)
  case Nil
  show ?case by simp
next
  case (Cons s rest)
  show ?case
  proof (cases "k = 0")
    case True
    then show ?thesis by (simp add: rem_def)
  next
    case False
    have "snd (sampleLoop k tgs i (s # rest)) = snd (sampleLoop k tgs (incr i) rest)"
      using False by (simp add: rem_def split: prod.splits)
    with Cons.IH [of "incr i"] False show ?thesis by simp
  qed
qed

text \<open>
  C9. \<open>NewMonitor\<close> does not look at the interval: for every interval, also zero
  and the negative ones, it returns a monitor holding that interval whenever
  inspection returns a container with a non-empty app identity. The loop of
  \<open>handle\<close> then divides by it: with interval zero the first snapshot that arrives
  stops the loop with a division by zero before anything is sent, and \<open>handle\<close>
  ends in that panic. The loop panics exactly when the interval is zero and a
  snapshot arrives.
\<close>

theorem interval_unchecked:
  "(InspectContainer cl ident = Inr ct \<and> extractApp penv ct \<noteq> []
        \<longrightarrow> (\<exists>m. NewMonitor penv cl ident ival = Inr m \<and> interval m = ival))
   \<and> sampleLoop 0 tgs 0 (s # rest) = ([], Some DivideByZero)
   \<and> (snd (sampleLoop k tgs i xs) = Some DivideByZero \<longleftrightarrow> k = 0 \<and> xs \<noteq> [])
   \<and> (interval mon = 0 \<and> StatsCall (client mon) (id' mon) = (s # rest, err)
        \<longrightarrow> handle mon = ([], Inl DivideByZero))"
proof -
  have 1: "InspectContainer cl ident = Inr ct \<and> extractApp penv ct \<noteq> []
        \<longrightarrow> (\<exists>m. NewMonitor penv cl ident ival = Inr m \<and> interval m = ival)"
    by (simp add: NewMonitor_Inr)
  have 4: "interval mon = 0 \<and> StatsCall (client mon) (id' mon) = (s # rest, err)
        \<longrightarrow> handle mon = ([], Inl DivideByZero)"
    by (simp add: handle_def rem_def)
  from 1 4 sampleLoop_zero [of tgs 0 s rest] sampleLoop_panic_iff [of k tgs i xs]
  show ?thesis by blast
qed

theorem interval_unchecked_witness:
  "(\<exists>m. NewMonitor unset_env exampleClient ''web'' 0 = Inr m \<and> interval m = 0)
   \<and> (\<exists>m. NewMonitor unset_env exampleClient ''web'' (- 5) = Inr m \<and> interval m = - 5)
   \<and> handle \<lparr>client = exampleClient, id' = ''web-full-id'', app = ''/infra/web'',
              task = ''default'', tags = map_of [(''app'', ''web'')], interval = 0\<rparr>
       = ([], Inl DivideByZero)"
proof -
  let ?web = "\<lparr>ID = ''web-full-id'', Name = ''/web'',
               Labels = map_of [(''app_id'', ''/infra/web'')], Env = [''PATH=/bin'']\<rparr>"
  let ?m = "\<lparr>client = exampleClient, id' = ''web-full-id'', app = ''/infra/web'',
              task = ''default'', tags = map_of [(''app'', ''web'')], interval = 0\<rparr>"
  have w: "InspectContainer exampleClient ''web'' = Inr ?web \<and> extractApp unset_env ?web \<noteq> []"
    by (simp add: exampleClient_def config_defs resolve_defs)
  have h: "interval ?m = 0 \<and> StatsCall (client ?m) (id' ?m) = (11 # [12, 13], None)"
    by (simp add: exampleClient_def)
  note t0 = interval_unchecked [of exampleClient "''web''" ?web unset_env 0 Map.empty
                11 "[12, 13]" 0 0 "[]" ?m None]
  note t5 = interval_unchecked [of exampleClient "''web''" ?web unset_env "- 5" Map.empty
                11 "[12, 13]" 0 0 "[]" ?m None]
  from t0 [THEN conjunct1] w
  have 1: "\<exists>m. NewMonitor unset_env exampleClient ''web'' 0 = Inr m \<and> interval m = 0"
    by (rule mp)
  from t5 [THEN conjunct1] w
  have 2: "\<exists>m. NewMonitor unset_env exampleClient ''web'' (- 5) = Inr m \<and> interval m = - 5"
    by (rule mp)
  from t0 [THEN conjunct2, THEN conjunct2, THEN conjunct2] h
  have 3: "handle ?m = ([], Inl DivideByZero)"
    by (rule mp)
  from 1 2 3 show ?thesis by blast
qed

lemma pick_mod: "pick k i xs = pick k (i mod k) xs"
proof (induction xs arbitrary: i)
  case Nil
  show ?case by simp
next
  case (Cons x xs)
  have "pick k (Suc i) xs = pick k (Suc (i mod k)) xs"
    using Cons.IH [of "Suc i"] Cons.IH [of "Suc (i mod k)"] by (simp add: mod_Suc_eq)
  then show ?case by simp
qed

lemma pick_skip: "0 < j \<Longrightarrow> j \<le> k \<Longrightarrow> pick k j xs = pick k 0 (drop (k - j) xs)"
proof (induction "k - j" arbitrary: j xs)
  case 0
  then have "j = k" by simp
  then show ?case using pick_mod [of k k xs] by simp
next
  case (Suc d)
  then have jk: "j < k" by simp
  show ?case
  proof (cases xs)
    case Nil
    then show ?thesis by simp
  next
    case (Cons y ys)
    have "pick k j xs = pick k (Suc j) ys"
      using Cons jk Suc.prems by simp
    also have "\<dots> = pick k 0 (drop (k - Suc j) ys)"
      using Suc.hyps(1) [of "Suc j" ys] Suc.hyps(2) jk by simp
    also have "\<dots> = pick k 0 (drop (k - j) xs)"
    proof -
      have "k - j = Suc (k - Suc j)" using jk by simp
      then show ?thesis using Cons by simp
    qed
    finally show ?thesis .
  qed
qed

lemma pick_Cons: "0 < k \<Longrightarrow> pick k 0 (x # xs) = x # pick k 0 (drop k (x # xs))"
proof -
  assume k: "0 < k"
  have "pick k 0 (x # xs) = x # pick k (Suc 0) xs" by simp
  also have "pick k (Suc 0) xs = pick k 0 (drop (k - Suc 0) xs)"
    using k pick_skip [of "Suc 0" k xs] by simp
  also have "drop (k - Suc 0) xs = drop k (x # xs)"
    using k by (cases k) simp_all
  finally show ?thesis .
qed

lemma ceil_step:
  "0 < k \<Longrightarrow> 0 < (n::nat) \<Longrightarrow> (n + k - 1) div k = Suc ((n - k + k - 1) div k)"
proof (cases "k \<le> n")
  case True
  assume k: "0 < k" and n: "0 < n"
  have "(n + k - 1) div k = ((n - 1) + k) div k" using n by simp
  also have "\<dots> = Suc ((n - 1) div k)" using k by simp
  also have "n - 1 = n - k + k - 1" using True by simp
  finally show ?thesis .
next
  case False
  assume k: "0 < k" and n: "0 < n"
  have a: "(n + k - 1) div k = ((n - 1) + k) div k" using n by simp
  have b: "((n - 1) + k) div k = Suc ((n - 1) div k)" using k by simp
  have c: "(n - 1) div k = 0" using False by simp
  have d: "(n - k + k - 1) div k = 0" using False k by simp
  from a b c d show ?thesis by simp
qed

lemma idx_bound: "0 < k \<Longrightarrow> j < (L + k - 1) div k \<Longrightarrow> j * k < (L::nat)"
proof -
  assume k: "0 < k" and j: "j < (L + k - 1) div k"
  from j have "Suc j \<le> (L + k - 1) div k" by simp
  then have "Suc j * k \<le> L + k - 1"
    using k less_eq_div_iff_mult_less_eq [of k "Suc j" "L + k - 1"] by simp
  then show ?thesis using k by simp
qed

lemma pick_positions:
  "0 < k \<Longrightarrow> pick k 0 xs = map (\<lambda>j. xs ! (j * k)) [0..<(length xs + k - 1) div k]"
proof (induction xs rule: length_induct)
  case (1 xs)
  show ?case
  proof (cases xs)
    case Nil
    then show ?thesis using "1.prems" by simp
  next
    case (Cons x r)
    let ?n = "(length xs + k - 1) div k"
    let ?ys = "drop k xs"
    have shorter: "length ?ys < length xs" using Cons "1.prems" by simp
    have n: "?n = Suc ((length ?ys + k - 1) div k)"
      using ceil_step [of k "length xs"] "1.prems" Cons by simp
    have ih: "pick k 0 ?ys = map (\<lambda>j. ?ys ! (j * k)) [0..<(length ?ys + k - 1) div k]"
      using "1.IH" shorter "1.prems" by blast
    have nth: "?ys ! (j * k) = xs ! (Suc j * k)" if "j < (length ?ys + k - 1) div k" for j
    proof -
      have "j * k < length ?ys" using that "1.prems" by (rule idx_bound [rotated])
      then have "k \<le> length xs" by simp
      then show ?thesis by (simp add: add.commute)
    qed
    have mapeq: "map (\<lambda>j. ?ys ! (j * k)) [0..<(length ?ys + k - 1) div k]
                 = map (\<lambda>j. xs ! (Suc j * k)) [0..<(length ?ys + k - 1) div k]"
      by (rule map_cong) (simp_all add: nth)
    have "pick k 0 xs = x # pick k 0 ?ys"
      using Cons pick_Cons [of k x r] "1.prems" by simp
    also have "\<dots> = xs ! (0 * k) # map (\<lambda>j. xs ! (Suc j * k)) [0..<(length ?ys + k - 1) div k]"
      using ih mapeq Cons by simp
    also have "\<dots> = map (\<lambda>j. xs ! (j * k)) (0 # map Suc [0..<(length ?ys + k - 1) div k])"
      by (simp add: comp_def)
    also have "0 # map Suc [0..<(length ?ys + k - 1) div k] = [0..<?n]"
      unfolding n by (simp add: upt_conv_Cons map_Suc_upt del: upt_Suc)
    finally show ?thesis .
  qed
qed

lemma ceiling_div_nat: "0 < k \<Longrightarrow> nat \<lceil>real n / real k\<rceil> = (n + k - 1) div k"
proof -
  assume k: "0 < k"
  let ?m = "(n + k - 1) div k"
  have up: "n \<le> ?m * k"
  proof -
    have "n + k - 1 = ?m * k + (n + k - 1) mod k" by simp
    moreover have "(n + k - 1) mod k < k" using k by simp
    ultimately show ?thesis by linarith
  qed
  have lo: "?m * k < n + k"
  proof -
    have "?m * k \<le> n + k - 1" by simp
    then show ?thesis using k by linarith
  qed
  have rk: "0 < real k" using k by simp
  have a: "real n / real k \<le> real ?m"
  proof -
    have "real n \<le> real (?m * k)" using up by (simp only: of_nat_le_iff)
    then show ?thesis using rk by (simp add: pos_divide_le_eq)
  qed
  have b: "real ?m - 1 < real n / real k"
  proof -
    have "real (?m * k) < real (n + k)" using lo by (simp only: of_nat_less_iff)
    then have "(real ?m - 1) * real k < real n" by (simp add: algebra_simps)
    then show ?thesis using rk by (simp add: pos_less_divide_eq)
  qed
  have "\<lceil>real n / real k\<rceil> = int ?m"
    using a b by (intro ceiling_unique) simp_all
  then show ?thesis by simp
qed

lemma rem_nonneg: "0 < k \<Longrightarrow> 0 \<le> i \<Longrightarrow> rem i k = Inr (i mod k)"
  by (cases "i = 0") (simp_all add: rem_def)

lemma incr_small: "0 \<le> i \<Longrightarrow> i + 1 < 2 ^ 63 \<Longrightarrow> incr i = i + 1"
  by (simp add: incr_def)

lemma sampleLoop_pick:
  "0 < k \<Longrightarrow> 0 \<le> i \<Longrightarrow> i + int (length xs) \<le> 2 ^ 63 \<Longrightarrow>
   sampleLoop k tgs i xs = (map (\<lambda>s. \<lparr>Tags = tgs, Stats = s\<rparr>) (pick (nat k) (nat i) xs), None)"
proof (induction xs arbitrary: i)
  case Nil
  show ?case by simp
next
  case (Cons s rest)
  have r: "rem i k = Inr (i mod k)" using Cons.prems by (simp add: rem_nonneg)
  have m: "(i mod k = 0) = (nat i mod nat k = 0)"
  proof -
    have "nat (i mod k) = nat i mod nat k" using Cons.prems by (simp add: nat_mod_distrib)
    moreover have "0 \<le> i mod k" using Cons.prems by simp
    ultimately show ?thesis by (metis nat_0 nat_0_iff antisym)
  qed
  show ?case
  proof (cases rest)
    case Nil
    then show ?thesis using r m by simp
  next
    case (Cons t rest')
    then have "i + 1 < 2 ^ 63" using Cons.prems(3) by simp
    then have inc: "incr i = i + 1" using Cons.prems(2) by (simp add: incr_small)
    have "sampleLoop k tgs (i + 1) rest =
            (map (\<lambda>s. \<lparr>Tags = tgs, Stats = s\<rparr>) (pick (nat k) (nat (i + 1)) rest), None)"
      using Cons.IH [of "i + 1"] Cons.prems by simp
    moreover have "nat (i + 1) = Suc (nat i)" using Cons.prems(2) by simp
    ultimately show ?thesis using r m inc by simp
  qed
qed

text \<open>
  C5. For every positive interval \<open>k\<close> and every sequence \<open>xs\<close> of \<open>N\<close> raw
  snapshots, the sampler, with its counter starting at 0, sends exactly
  \<open>\<lceil>N / k\<rceil>\<close> values and does not panic: the snapshots at the positions
  \<open>0, k, 2k, \<dots>\<close> of \<open>xs\<close>, in that order, each paired with the monitor's
  tags; \<open>handle\<close> sends the same and returns what the client's call returned. The
  counter is a 64-bit integer, so the statement is for the streams of at most
  \<open>2\<^sup>6\<^sup>3\<close> snapshots, before the counter wraps around.
\<close>

theorem sampler_every_kth:
  "0 < k \<Longrightarrow> length xs \<le> 2 ^ 63 \<Longrightarrow>
   sampleLoop (int k) tgs 0 xs =
     (map (\<lambda>j. \<lparr>Tags = tgs, Stats = xs ! (j * k)\<rparr>) [0..<nat \<lceil>real (length xs) / real k\<rceil>], None)
   \<and> length (fst (sampleLoop (int k) tgs 0 xs)) = nat \<lceil>real (length xs) / real k\<rceil>
   \<and> (interval mon = int k \<and> tags mon = tgs \<and> StatsCall (client mon) (id' mon) = (xs, err)
        \<longrightarrow> handle mon =
          (map (\<lambda>j. \<lparr>Tags = tgs, Stats = xs ! (j * k)\<rparr>) [0..<nat \<lceil>real (length xs) / real k\<rceil>],
           Inr err))"
proof -
  assume k: "0 < k" and len: "length xs \<le> 2 ^ 63"
  let ?out = "map (\<lambda>j. \<lparr>Tags = tgs, Stats = xs ! (j * k)\<rparr>) [0..<nat \<lceil>real (length xs) / real k\<rceil>]"
  have "int (length xs) \<le> 2 ^ 63" using len by (metis of_nat_le_iff of_nat_numeral of_nat_power)
  then have "sampleLoop (int k) tgs 0 xs =
               (map (\<lambda>s. \<lparr>Tags = tgs, Stats = s\<rparr>) (pick k 0 xs), None)"
    using k sampleLoop_pick [of "int k" 0 xs tgs] by simp
  also have "pick k 0 xs = map (\<lambda>j. xs ! (j * k)) [0..<nat \<lceil>real (length xs) / real k\<rceil>]"
    using k by (simp add: pick_positions ceiling_div_nat)
  finally have 1: "sampleLoop (int k) tgs 0 xs = (?out, None)"
    by (simp add: comp_def)
  have 2: "length (fst (sampleLoop (int k) tgs 0 xs)) = nat \<lceil>real (length xs) / real k\<rceil>"
    unfolding 1 by simp
  have 3: "interval mon = int k \<and> tags mon = tgs \<and> StatsCall (client mon) (id' mon) = (xs, err)
        \<longrightarrow> handle mon = (?out, Inr err)"
    using 1 by (simp add: handle_def)
  from 1 2 3 show ?thesis by blast
qed

theorem sampler_every_kth_witness:
  "sampleLoop 3 (map_of [(''app'', ''web'')]) 0 [10, 11, 12, 13, 14, 15, 16, 17 :: nat] =
     ([\<lparr>Tags = map_of [(''app'', ''web'')], Stats = 10\<rparr>,
       \<lparr>Tags = map_of [(''app'', ''web'')], Stats = 13\<rparr>,
       \<lparr>Tags = map_of [(''app'', ''web'')], Stats = 16\<rparr>], None)"
proof -
  let ?xs = "[10, 11, 12, 13, 14, 15, 16, 17 :: nat]"
  let ?t = "map_of [(''app'', ''web'')]"
  have h1: "0 < (3::nat)" by simp
  have h2: "length ?xs \<le> 2 ^ 63" by simp
  have c: "nat \<lceil>real (length ?xs) / real 3\<rceil> = 3"
    by (simp add: ceiling_div_nat)
  have u: "[0..<3] = [0, 1, 2]" by (simp add: upt_rec)
  have k: "int 3 = 3" by simp
  have e: "map (\<lambda>j. \<lparr>Tags = ?t, Stats = ?xs ! (j * 3)\<rparr>) [0, 1, 2]
           = [\<lparr>Tags = ?t, Stats = 10\<rparr>, \<lparr>Tags = ?t, Stats = 13\<rparr>, \<lparr>Tags = ?t, Stats = 16\<rparr>]"
    by simp
  from sampler_every_kth [OF h1 h2, of ?t, THEN conjunct1]
  show ?thesis unfolding c u k e .
qed

subsection \<open>Decimal numerals, splitting and joining\<close>

lemma decimal_nonempty: "decimal n \<noteq> []"
  by (subst decimal.simps) simp

lemma digit_inj: "a < 10 \<Longrightarrow> b < 10 \<Longrightarrow> digit a = digit b \<Longrightarrow> a = b"
proof -
  assume a: "a < 10" and b: "b < 10" and e: "digit a = digit b"
  have d: "distinct ''0123456789''" by simp
  have l: "length ''0123456789'' = 10" by simp
  from e have "''0123456789'' ! a = ''0123456789'' ! b" by (simp only: digit_def)
  with d a b l show "a = b" by (simp only: nth_eq_iff_index_eq)
qed

lemma decimal_inj: "decimal n = decimal m \<Longrightarrow> n = m"
proof (induction n arbitrary: m rule: decimal.induct)
  case (1 n)
  show ?case
  proof (cases "n < 10")
    case n: True
    show ?thesis
    proof (cases "m < 10")
      case True
      with n "1.prems" show ?thesis
        by (simp add: decimal.simps [of n] decimal.simps [of m] digit_inj)
    next
      case False
      with n "1.prems" decimal_nonempty [of "m div 10"] show ?thesis
        by (simp add: decimal.simps [of n] decimal.simps [of m])
    qed
  next
    case n: False
    show ?thesis
    proof (cases "m < 10")
      case True
      with n "1.prems" decimal_nonempty [of "n div 10"] show ?thesis
        by (simp add: decimal.simps [of n] decimal.simps [of m])
    next
      case False
      with n "1.prems" have e: "decimal (n div 10) = decimal (m div 10)"
        and d: "digit (n mod 10) = digit (m mod 10)"
        by (simp_all add: decimal.simps [of n] decimal.simps [of m])
      from "1.IH" [OF n e] have q: "n div 10 = m div 10" .
      from d have r: "n mod 10 = m mod 10" by (simp add: digit_inj)
      from q r show ?thesis by (metis div_mult_mod_eq)
    qed
  qed
qed

lemma Itoa_nat: "Itoa (int n) = decimal n"
  by (simp add: Itoa_def)

lemma Itoa_Suc: "Itoa (int n + 1) = decimal (Suc n)"
  by (simp add: Itoa_def nat_add_distrib)

lemma splitWhere_nonempty: "splitWhere P s \<noteq> []"
  by (subst splitWhere.simps) (simp split: list.splits)

lemma splitWhere_none: "\<forall>c\<in>set s. \<not> P c \<Longrightarrow> splitWhere P s = [s]"
proof -
  assume "\<forall>c\<in>set s. \<not> P c"
  then have d: "dropWhile (\<lambda>c. \<not> P c) s = []" by simp
  show ?thesis by (subst splitWhere.simps) (simp only: d list.case)
qed

lemma splitWhere_cut:
  "\<forall>x\<in>set a. \<not> P x \<Longrightarrow> P c \<Longrightarrow> splitWhere P (a @ c # rest) = a # splitWhere P rest"
proof -
  assume a: "\<forall>x\<in>set a. \<not> P x" and c: "P c"
  have d: "dropWhile (\<lambda>c. \<not> P c) (a @ c # rest) = c # rest"
    using a c by simp
  have t: "takeWhile (\<lambda>c. \<not> P c) (a @ c # rest) = a"
    using a c by simp
  show ?thesis
    by (subst splitWhere.simps) (simp add: d t)
qed

lemma Join_Cons: "ws \<noteq> [] \<Longrightarrow> Join (w # ws) sep = w @ sep @ Join ws sep"
  by (cases ws) simp_all

lemma Join_splitWhere: "Join (splitWhere (\<lambda>x. x = c) s) [c] = s"
proof (induction "\<lambda>x. x = c" s rule: splitWhere.induct)
  case (1 s)
  show ?case
  proof (cases "dropWhile (\<lambda>x. x \<noteq> c) s")
    case Nil
    show ?thesis by (subst splitWhere.simps) (simp only: Nil list.case Join.simps)
  next
    case (Cons y rest)
    have y: "y = c" using hd_dropWhile [of "\<lambda>x. x \<noteq> c" s] by (simp add: Cons)
    have ih: "Join (splitWhere (\<lambda>x. x = c) rest) [c] = rest"
      by (rule "1.hyps" [OF Cons])
    have s: "takeWhile (\<lambda>x. x \<noteq> c) s @ c # rest = s"
      using takeWhile_dropWhile_id [of "\<lambda>x. x \<noteq> c" s] by (simp only: Cons y)
    have "Join (splitWhere (\<lambda>x. x = c) s) [c]
            = Join (takeWhile (\<lambda>x. x \<noteq> c) s # splitWhere (\<lambda>x. x = c) rest) [c]"
      by (subst splitWhere.simps) (simp only: Cons list.case)
    also have "\<dots> = takeWhile (\<lambda>x. x \<noteq> c) s @ [c] @ rest"
      by (simp only: Join_Cons [OF splitWhere_nonempty] ih)
    also have "\<dots> = s" using s by simp
    finally show ?thesis .
  qed
qed

lemma splitWhere_clean: "\<forall>w\<in>set (splitWhere P s). \<forall>x\<in>set w. \<not> P x"
proof (induction P s rule: splitWhere.induct)
  case (1 P s)
  show ?case
  proof (cases "dropWhile (\<lambda>c. \<not> P c) s")
    case Nil
    then have "\<forall>x\<in>set s. \<not> P x" by simp
    then show ?thesis by (simp add: splitWhere_none)
  next
    case (Cons y rest)
    have t: "\<forall>x\<in>set (takeWhile (\<lambda>c. \<not> P c) s). \<not> P x"
      by (auto dest: set_takeWhileD)
    have e: "splitWhere P s = takeWhile (\<lambda>c. \<not> P c) s # splitWhere P rest"
      by (subst splitWhere.simps) (simp only: Cons list.case)
    have ih: "\<forall>w\<in>set (splitWhere P rest). \<forall>x\<in>set w. \<not> P x"
      by (rule "1.IH" [OF Cons])
    show ?thesis unfolding e using t ih by (simp only: list.set ball_simps simp_thms)
  qed
qed

lemma length_splitWhere: "length (splitWhere P s) = Suc (length (filter P s))"
proof (induction P s rule: splitWhere.induct)
  case (1 P s)
  show ?case
  proof (cases "dropWhile (\<lambda>c. \<not> P c) s")
    case Nil
    then have n: "\<forall>x\<in>set s. \<not> P x" by simp
    then have "filter P s = []" by (simp add: filter_empty_conv)
    then show ?thesis using n by (simp add: splitWhere_none)
  next
    case (Cons y rest)
    have y: "P y" using hd_dropWhile [of "\<lambda>c. \<not> P c" s] by (simp add: Cons)
    have s: "s = takeWhile (\<lambda>c. \<not> P c) s @ y # rest"
      using takeWhile_dropWhile_id [of "\<lambda>c. \<not> P c" s] by (simp only: Cons)
    have "filter P (takeWhile (\<lambda>c. \<not> P c) s) = []"
      by (auto simp: filter_empty_conv dest: set_takeWhileD)
    then have f: "filter P s = y # filter P rest"
      using y by (subst s) simp
    have e: "splitWhere P s = takeWhile (\<lambda>c. \<not> P c) s # splitWhere P rest"
      by (subst splitWhere.simps) (simp only: Cons list.case)
    have ih: "length (splitWhere P rest) = Suc (length (filter P rest))"
      by (rule "1.IH" [OF Cons])
    show ?thesis unfolding e f by (simp only: list.size length_Cons ih)
  qed
qed

subsection \<open>Tag expansion\<close>

lemmas eval_defs =
  extractTagsFromApp_def extractTagsFromTask_def Split_def splitWhere.simps splitregexp_def
  groupLoop.simps taskLoop.simps Itoa_def decimal.simps digit_def Let_def

lemma taskLoop_other:
  "\<forall>j. i \<le> j \<and> j < length sp \<longrightarrow> key \<noteq> ''task'' @ decimal (Suc j) \<Longrightarrow>
   taskLoop tgs sp i key = tgs key"
proof (induction tgs sp i rule: taskLoop.induct)
  case (1 tgs sp i)
  show ?case
  proof (cases "i < length sp")
    case True
    let ?k = "''task'' @ Itoa (int i + 1)"
    let ?v = "sp ! i"
    have k: "?k = ''task'' @ decimal (Suc i)" by (simp add: Itoa_Suc)
    have ne: "key \<noteq> ?k" unfolding k using "1.prems" True by blast
    have pre: "\<forall>j. i + 1 \<le> j \<and> j < length sp \<longrightarrow> key \<noteq> ''task'' @ decimal (Suc j)"
      using "1.prems" by auto
    have "taskLoop tgs sp i key = taskLoop (tgs(?k \<mapsto> ?v)) sp (i + 1) key"
      using True by (subst taskLoop.simps) (simp only: if_True)
    also have "\<dots> = (tgs(?k \<mapsto> ?v)) key"
      by (rule "1.IH" [OF True pre])
    also have "\<dots> = tgs key"
      using ne by (simp only: fun_upd_apply if_False)
    finally show ?thesis .
  next
    case False
    then show ?thesis by (subst taskLoop.simps) (simp only: if_False)
  qed
qed

lemma taskLoop_key:
  "i \<le> j \<Longrightarrow> j < length sp \<Longrightarrow>
   taskLoop tgs sp i (''task'' @ decimal (Suc j)) = Some (sp ! j)"
proof (induction tgs sp i rule: taskLoop.induct)
  case (1 tgs sp i)
  let ?k = "''task'' @ Itoa (int i + 1)"
  let ?v = "sp ! i"
  let ?key = "''task'' @ decimal (Suc j)"
  have lt: "i < length sp" using "1.prems" by simp
  have k: "?k = ''task'' @ decimal (Suc i)" by (simp add: Itoa_Suc)
  have step: "taskLoop tgs sp i ?key = taskLoop (tgs(?k \<mapsto> ?v)) sp (i + 1) ?key"
    using lt by (subst taskLoop.simps) (simp only: if_True)
  show ?case
  proof (cases "j = i")
    case True
    have pre: "\<forall>j'. i + 1 \<le> j' \<and> j' < length sp \<longrightarrow> ?key \<noteq> ''task'' @ decimal (Suc j')"
    proof (intro allI impI)
      fix j' assume "i + 1 \<le> j' \<and> j' < length sp"
      then have "Suc j \<noteq> Suc j'" using True by simp
      then have "decimal (Suc j) \<noteq> decimal (Suc j')" using decimal_inj by blast
      then show "?key \<noteq> ''task'' @ decimal (Suc j')" by simp
    qed
    have "taskLoop (tgs(?k \<mapsto> ?v)) sp (i + 1) ?key = (tgs(?k \<mapsto> ?v)) ?key"
      using pre by (rule taskLoop_other)
    also have "\<dots> = Some ?v" unfolding k True by (simp only: fun_upd_apply refl if_True)
    finally have e: "taskLoop (tgs(?k \<mapsto> ?v)) sp (i + 1) ?key = Some ?v" .
    show ?thesis unfolding step e using True by simp
  next
    case False
    then have le: "i + 1 \<le> j" using "1.prems" by simp
    show ?thesis unfolding step
      using le "1.prems"(2) by (rule "1.IH" [OF lt])
  qed
qed

lemma groupLoop_other:
  "\<forall>j. i \<le> j \<and> j < length sp \<longrightarrow> key \<noteq> ''group'' @ decimal j \<Longrightarrow>
   groupLoop tgs sp i key = tgs key"
proof (induction tgs sp i rule: groupLoop.induct)
  case (1 tgs sp i)
  show ?case
  proof (cases "i < length sp")
    case True
    let ?k = "''group'' @ Itoa (int i)"
    let ?v = "Join (take (i + 1) sp) ''/''"
    have k: "?k = ''group'' @ decimal i" by (simp add: Itoa_nat)
    have ne: "key \<noteq> ?k" unfolding k using "1.prems" True by blast
    have pre: "\<forall>j. i + 1 \<le> j \<and> j < length sp \<longrightarrow> key \<noteq> ''group'' @ decimal j"
      using "1.prems" by auto
    have "groupLoop tgs sp i key = groupLoop (tgs(?k \<mapsto> ?v)) sp (i + 1) key"
      using True by (subst groupLoop.simps) (simp only: if_True)
    also have "\<dots> = (tgs(?k \<mapsto> ?v)) key"
      by (rule "1.IH" [OF True pre])
    also have "\<dots> = tgs key"
      using ne by (simp only: fun_upd_apply if_False)
    finally show ?thesis .
  next
    case False
    then show ?thesis by (subst groupLoop.simps) (simp only: if_False)
  qed
qed

lemma groupLoop_key:
  "i \<le> j \<Longrightarrow> j < length sp \<Longrightarrow>
   groupLoop tgs sp i (''group'' @ decimal j) = Some (Join (take (j + 1) sp) ''/'')"
proof (induction tgs sp i rule: groupLoop.induct)
  case (1 tgs sp i)
  let ?k = "''group'' @ Itoa (int i)"
  let ?v = "Join (take (i + 1) sp) ''/''"
  let ?key = "''group'' @ decimal j"
  have lt: "i < length sp" using "1.prems" by simp
  have k: "?k = ''group'' @ decimal i" by (simp add: Itoa_nat)
  have step: "groupLoop tgs sp i ?key = groupLoop (tgs(?k \<mapsto> ?v)) sp (i + 1) ?key"
    using lt by (subst groupLoop.simps) (simp only: if_True)
  show ?case
  proof (cases "j = i")
    case True
    have pre: "\<forall>j'. i + 1 \<le> j' \<and> j' < length sp \<longrightarrow> ?key \<noteq> ''group'' @ decimal j'"
    proof (intro allI impI)
      fix j' assume "i + 1 \<le> j' \<and> j' < length sp"
      then have "j \<noteq> j'" using True by simp
      then have "decimal j \<noteq> decimal j'" using decimal_inj by blast
      then show "?key \<noteq> ''group'' @ decimal j'" by simp
    qed
    have "groupLoop (tgs(?k \<mapsto> ?v)) sp (i + 1) ?key = (tgs(?k \<mapsto> ?v)) ?key"
      using pre by (rule groupLoop_other)
    also have "\<dots> = Some ?v" unfolding k True by (simp only: fun_upd_apply refl if_True)
    finally have e: "groupLoop (tgs(?k \<mapsto> ?v)) sp (i + 1) ?key = Some ?v" .
    show ?thesis unfolding step e using True by simp
  next
    case False
    then have le: "i + 1 \<le> j" using "1.prems" by simp
    show ?thesis unfolding step
      using le "1.prems"(2) by (rule "1.IH" [OF lt])
  qed
qed

lemma task_key_ne: "''task'' \<noteq> ''task'' @ decimal n"
  using decimal_nonempty [of n] by simp

lemma group_key_ne: "k \<in> {''app_id'', ''app'', ''group''} \<Longrightarrow> k \<noteq> ''group'' @ decimal n"
  using decimal_nonempty [of n] by auto

lemma extractTagsFromTask_task: "extractTagsFromTask tgs T ''task'' = Some T"
proof -
  have "taskLoop (tgs(''task'' \<mapsto> T)) (splitWhere splitregexp T) 0 ''task''
          = (tgs(''task'' \<mapsto> T)) ''task''"
    by (rule taskLoop_other) (simp only: task_key_ne not_False_eq_True simp_thms)
  then show ?thesis by (simp add: extractTagsFromTask_def Let_def)
qed

lemma extractTagsFromTask_seg:
  "i < length (splitWhere splitregexp T) \<Longrightarrow>
   extractTagsFromTask tgs T (''task'' @ Itoa (int i + 1)) = Some (splitWhere splitregexp T ! i)"
  unfolding extractTagsFromTask_def Let_def Itoa_Suc
  by (rule taskLoop_key) simp_all

lemma extractTagsFromTask_other:
  "key \<noteq> ''task'' \<Longrightarrow>
   \<forall>i. i < length (splitWhere splitregexp T) \<longrightarrow> key \<noteq> ''task'' @ Itoa (int i + 1) \<Longrightarrow>
   extractTagsFromTask tgs T key = tgs key"
proof -
  assume k: "key \<noteq> ''task''"
    and o: "\<forall>i. i < length (splitWhere splitregexp T) \<longrightarrow> key \<noteq> ''task'' @ Itoa (int i + 1)"
  have "\<forall>j. 0 \<le> j \<and> j < length (splitWhere splitregexp T) \<longrightarrow> key \<noteq> ''task'' @ decimal (Suc j)"
    using o by (simp only: Itoa_Suc le0 simp_thms)
  then have "taskLoop (tgs(''task'' \<mapsto> T)) (splitWhere splitregexp T) 0 key
          = (tgs(''task'' \<mapsto> T)) key"
    by (rule taskLoop_other)
  then show ?thesis using k by (simp add: extractTagsFromTask_def Let_def)
qed

lemma task1_key: "''task'' @ Itoa (int 0 + 1) = ''task1''"
  by (simp add: Itoa_def decimal.simps digit_def)

lemma splitWhere_plain:
  "\<forall>x\<in>set T. x \<noteq> CHR ''-'' \<and> x \<noteq> CHR ''.'' \<Longrightarrow> splitWhere splitregexp T = [T]"
  by (intro splitWhere_none) (simp add: splitregexp_def)

lemma extractTagsFromTask_plain:
  assumes "\<forall>x\<in>set T. x \<noteq> CHR ''-'' \<and> x \<noteq> CHR ''.''"
  shows "extractTagsFromTask tgs T ''task1'' = Some T"
proof -
  have s: "splitWhere splitregexp T = [T]" using assms by (rule splitWhere_plain)
  have "extractTagsFromTask tgs T (''task'' @ Itoa (int 0 + 1)) = Some (splitWhere splitregexp T ! 0)"
    by (rule extractTagsFromTask_seg) (simp add: s)
  then show ?thesis unfolding task1_key s by simp
qed

lemma extractTagsFromTask_plain_dom:
  assumes "\<forall>x\<in>set T. x \<noteq> CHR ''-'' \<and> x \<noteq> CHR ''.''"
  shows "dom (extractTagsFromTask Map.empty T) = {''task'', ''task1''}"
proof (rule set_eqI)
  fix key
  have s: "splitWhere splitregexp T = [T]" using assms by (rule splitWhere_plain)
  show "key \<in> dom (extractTagsFromTask Map.empty T) \<longleftrightarrow> key \<in> {''task'', ''task1''}"
  proof (cases "key = ''task'' \<or> key = ''task1''")
    case True
    then show ?thesis
      using extractTagsFromTask_task [of Map.empty T]
        extractTagsFromTask_plain [OF assms, of Map.empty]
      by (auto simp: dom_def)
  next
    case False
    then have "\<forall>i. i < length (splitWhere splitregexp T) \<longrightarrow> key \<noteq> ''task'' @ Itoa (int i + 1)"
      unfolding s using task1_key by simp
    then have "extractTagsFromTask Map.empty T key = None"
      using False by (simp add: extractTagsFromTask_other)
    then show ?thesis using False by (simp add: dom_def)
  qed
qed

text \<open>
  C4. For every task identity \<open>T\<close>, with \<open>s\<^sub>1, \<dots>, s\<^sub>n\<close> the pieces of \<open>T\<close> cut at
  every byte \<^verbatim>\<open>-\<close> or \<^verbatim>\<open>.\<close> (a piece ends at the first such byte and the rest
  is cut in the same way; a string with no such byte is one piece), the expansion
  sets \<^verbatim>\<open>task\<close> to \<open>T\<close> and \<^verbatim>\<open>task\<close>\<open>i\<close> to \<open>s\<^sub>i\<close> for every position \<open>i\<close> counted
  from 1, and leaves every other key as it was. A task identity with no \<^verbatim>\<open>-\<close> and
  no \<^verbatim>\<open>.\<close> gives only \<^verbatim>\<open>task\<close> and \<^verbatim>\<open>task1\<close>, both the whole string, and
  \<^verbatim>\<open>worker-7.canary\<close> gives \<^verbatim>\<open>task1\<close> = \<^verbatim>\<open>worker\<close>, \<^verbatim>\<open>task2\<close> = \<^verbatim>\<open>7\<close>,
  \<^verbatim>\<open>task3\<close> = \<^verbatim>\<open>canary\<close>.
\<close>

theorem task_tags:
  "extractTagsFromTask tgs T ''task'' = Some T
   \<and> (\<forall>i. i < length (splitWhere splitregexp T)
         \<longrightarrow> extractTagsFromTask tgs T (''task'' @ Itoa (int i + 1))
               = Some (splitWhere splitregexp T ! i))
   \<and> (\<forall>key. key \<noteq> ''task''
          \<and> (\<forall>i. i < length (splitWhere splitregexp T) \<longrightarrow> key \<noteq> ''task'' @ Itoa (int i + 1))
         \<longrightarrow> extractTagsFromTask tgs T key = tgs key)
   \<and> (\<forall>a c rest. (\<forall>x\<in>set a. x \<noteq> CHR ''-'' \<and> x \<noteq> CHR ''.'') \<and> (c = CHR ''-'' \<or> c = CHR ''.'')
         \<longrightarrow> splitWhere splitregexp (a @ c # rest) = a # splitWhere splitregexp rest)
   \<and> ((\<forall>x\<in>set T. x \<noteq> CHR ''-'' \<and> x \<noteq> CHR ''.'')
         \<longrightarrow> splitWhere splitregexp T = [T]
           \<and> extractTagsFromTask tgs T ''task1'' = Some T
           \<and> dom (extractTagsFromTask Map.empty T) = {''task'', ''task1''})
   \<and> extractTagsFromTask Map.empty ''worker-7.canary'' =
        map_of [(''task'', ''worker-7.canary''), (''task1'', ''worker''), (''task2'', ''7''),
                (''task3'', ''canary'')]"
proof -
  have 1: "extractTagsFromTask tgs T ''task'' = Some T"
    by (rule extractTagsFromTask_task)
  have 2: "\<forall>i. i < length (splitWhere splitregexp T)
         \<longrightarrow> extractTagsFromTask tgs T (''task'' @ Itoa (int i + 1))
               = Some (splitWhere splitregexp T ! i)"
    by (intro allI impI) (rule extractTagsFromTask_seg)
  have 3: "\<forall>key. key \<noteq> ''task''
          \<and> (\<forall>i. i < length (splitWhere splitregexp T) \<longrightarrow> key \<noteq> ''task'' @ Itoa (int i + 1))
         \<longrightarrow> extractTagsFromTask tgs T key = tgs key"
    by (intro allI impI) (rule extractTagsFromTask_other, blast, blast)
  have 4: "\<forall>a c rest. (\<forall>x\<in>set a. x \<noteq> CHR ''-'' \<and> x \<noteq> CHR ''.'') \<and> (c = CHR ''-'' \<or> c = CHR ''.'')
         \<longrightarrow> splitWhere splitregexp (a @ c # rest) = a # splitWhere splitregexp rest"
    by (intro allI impI, rule splitWhere_cut) (auto simp: splitregexp_def)
  have 5: "(\<forall>x\<in>set T. x \<noteq> CHR ''-'' \<and> x \<noteq> CHR ''.'')
         \<longrightarrow> splitWhere splitregexp T = [T]
           \<and> extractTagsFromTask tgs T ''task1'' = Some T
           \<and> dom (extractTagsFromTask Map.empty T) = {''task'', ''task1''}"
    using splitWhere_plain [of T] extractTagsFromTask_plain [of T tgs]
      extractTagsFromTask_plain_dom [of T] by blast
  have 6: "extractTagsFromTask Map.empty ''worker-7.canary'' =
        map_of [(''task'', ''worker-7.canary''), (''task1'', ''worker''), (''task2'', ''7''),
                (''task3'', ''canary'')]"
    by (rule ext) (simp add: eval_defs)
  from 1 2 3 4 5 6 show ?thesis by (intro conjI)
qed

theorem task_tags_witness:
  "extractTagsFromTask (map_of [(''app'', ''api'')]) ''worker-7.canary'' ''task2'' = Some ''7''
   \<and> extractTagsFromTask (map_of [(''app'', ''api'')]) ''worker-7.canary'' ''app'' = Some ''api''
   \<and> splitWhere splitregexp ''worker-7.canary'' = ''worker'' # splitWhere splitregexp ''7.canary''
   \<and> extractTagsFromTask (map_of [(''app'', ''api'')]) ''web'' ''task1'' = Some ''web''
   \<and> dom (extractTagsFromTask Map.empty ''web'') = {''task'', ''task1''}"
proof -
  let ?tgs = "map_of [(''app'', ''api'')]"
  let ?T = "''worker-7.canary''"
  note t = task_tags [of ?tgs ?T]
  note w = task_tags [of ?tgs "''web''"]
  have sp: "splitWhere splitregexp ?T = [''worker'', ''7'', ''canary'']"
    by (simp add: eval_defs)
  have k2: "''task'' @ Itoa (int 1 + 1) = ''task2''"
    by (simp add: eval_defs)
  have h2: "1 < length (splitWhere splitregexp ?T)"
    unfolding sp by simp
  have h3: "''app'' \<noteq> ''task''
          \<and> (\<forall>i. i < length (splitWhere splitregexp ?T) \<longrightarrow> ''app'' \<noteq> ''task'' @ Itoa (int i + 1))"
    by simp
  have h4: "(\<forall>x\<in>set ''worker''. x \<noteq> CHR ''-'' \<and> x \<noteq> CHR ''.'') \<and> (CHR ''-'' = CHR ''-'' \<or> CHR ''-'' = CHR ''.'')"
    by simp
  have h5: "\<forall>x\<in>set ''web''. x \<noteq> CHR ''-'' \<and> x \<noteq> CHR ''.''"
    by simp
  from t [THEN conjunct2, THEN conjunct1, rule_format, OF h2]
  have a: "extractTagsFromTask ?tgs ?T ''task2'' = Some ''7''"
    unfolding k2 sp by simp
  from t [THEN conjunct2, THEN conjunct2, THEN conjunct1, rule_format, OF h3]
  have b: "extractTagsFromTask ?tgs ?T ''app'' = Some ''api''"
    by simp
  from t [THEN conjunct2, THEN conjunct2, THEN conjunct2, THEN conjunct1, rule_format, OF h4]
  have c: "splitWhere splitregexp ?T = ''worker'' # splitWhere splitregexp ''7.canary''"
    by simp
  from w [THEN conjunct2, THEN conjunct2, THEN conjunct2, THEN conjunct2, THEN conjunct1] h5
  have d: "splitWhere splitregexp ''web'' = [''web'']
           \<and> extractTagsFromTask ?tgs ''web'' ''task1'' = Some ''web''
           \<and> dom (extractTagsFromTask Map.empty ''web'') = {''task'', ''task1''}"
    by (rule mp)
  from a b c d show ?thesis by (intro conjI) (simp_all only:)
qed

lemma Split_nonempty: "Split A c \<noteq> []"
  by (simp add: Split_def splitWhere_nonempty)

lemma extractTagsFromApp_unfold:
  "extractTagsFromApp tgs A =
     (if length (butlast (Split A CHR ''/'')) \<le> 1
      then tgs(''app_id'' \<mapsto> A, ''app'' \<mapsto> last (Split A CHR ''/''), ''group'' \<mapsto> ''/'')
      else groupLoop
             (tgs(''app_id'' \<mapsto> A, ''app'' \<mapsto> last (Split A CHR ''/''),
                  ''group'' \<mapsto> Join (butlast (Split A CHR ''/'')) ''/''))
             (butlast (Split A CHR ''/'')) 1)"
proof -
  have l: "Split A CHR ''/'' ! (length (Split A CHR ''/'') - 1) = last (Split A CHR ''/'')"
    using Split_nonempty [of A "CHR ''/''"] by (simp add: last_conv_nth)
  have b: "take (length (Split A CHR ''/'') - 1) (Split A CHR ''/'') = butlast (Split A CHR ''/'')"
    by (simp add: butlast_conv_take)
  show ?thesis
    unfolding extractTagsFromApp_def Let_def l b by (rule refl)
qed

lemma extractTagsFromApp_base:
  assumes "key \<in> {''app_id'', ''app'', ''group''}"
  shows "extractTagsFromApp tgs A key =
     (if length (butlast (Split A CHR ''/'')) \<le> 1
      then (tgs(''app_id'' \<mapsto> A, ''app'' \<mapsto> last (Split A CHR ''/''), ''group'' \<mapsto> ''/'')) key
      else (tgs(''app_id'' \<mapsto> A, ''app'' \<mapsto> last (Split A CHR ''/''),
                  ''group'' \<mapsto> Join (butlast (Split A CHR ''/'')) ''/'')) key)"
proof (cases "length (butlast (Split A CHR ''/'')) \<le> 1")
  case True
  then show ?thesis by (simp only: extractTagsFromApp_unfold if_True)
next
  case False
  have "\<forall>j. 1 \<le> j \<and> j < length (butlast (Split A CHR ''/'')) \<longrightarrow> key \<noteq> ''group'' @ decimal j"
    using group_key_ne [OF assms] by blast
  then have "groupLoop
             (tgs(''app_id'' \<mapsto> A, ''app'' \<mapsto> last (Split A CHR ''/''),
                  ''group'' \<mapsto> Join (butlast (Split A CHR ''/'')) ''/''))
             (butlast (Split A CHR ''/'')) 1 key
         = (tgs(''app_id'' \<mapsto> A, ''app'' \<mapsto> last (Split A CHR ''/''),
                  ''group'' \<mapsto> Join (butlast (Split A CHR ''/'')) ''/'')) key"
    by (rule groupLoop_other)
  then show ?thesis using False by (simp only: extractTagsFromApp_unfold if_False)
qed

lemma extractTagsFromApp_group_i:
  assumes "1 \<le> i" and "i < length (butlast (Split A CHR ''/''))"
  shows "extractTagsFromApp tgs A (''group'' @ Itoa (int i))
           = Some (Join (take (i + 1) (butlast (Split A CHR ''/''))) ''/'')"
proof -
  have f: "\<not> length (butlast (Split A CHR ''/'')) \<le> 1" using assms by simp
  show ?thesis
    unfolding extractTagsFromApp_unfold Itoa_nat using f assms
    by (simp only: if_False groupLoop_key)
qed

text \<open>
  C3. For every app identity \<open>A\<close>, cut at every \<^verbatim>\<open>/\<close> (the pieces hold no
  \<^verbatim>\<open>/\<close> and joined with \<^verbatim>\<open>/\<close> give \<open>A\<close> back), the expansion sets \<^verbatim>\<open>app_id\<close>
  to \<open>A\<close> and \<^verbatim>\<open>app\<close> to the last piece. With the pieces before the last one as
  the leading ones: when there are 0 or 1 of them, \<^verbatim>\<open>group\<close> is \<^verbatim>\<open>/\<close>; otherwise
  \<^verbatim>\<open>group\<close> is the leading pieces joined with \<^verbatim>\<open>/\<close>, and for every \<open>i\<close> from 1 to
  their number minus 1, \<^verbatim>\<open>group\<close>\<open>i\<close> is the first \<open>i + 1\<close> of them joined with
  \<^verbatim>\<open>/\<close>. So \<^verbatim>\<open>a/b/c\<close> gives \<^verbatim>\<open>group\<close> = \<^verbatim>\<open>group1\<close> = \<^verbatim>\<open>a/b\<close>, and
  \<^verbatim>\<open>a/b/c/d\<close> gives \<^verbatim>\<open>group\<close> = \<^verbatim>\<open>a/b/c\<close>, \<^verbatim>\<open>group1\<close> = \<^verbatim>\<open>a/b\<close>,
  \<^verbatim>\<open>group2\<close> = \<^verbatim>\<open>a/b/c\<close>.
\<close>

theorem app_tags:
  "extractTagsFromApp tgs A ''app_id'' = Some A
   \<and> extractTagsFromApp tgs A ''app'' = Some (last (Split A CHR ''/''))
   \<and> (length (butlast (Split A CHR ''/'')) \<le> 1 \<longrightarrow> extractTagsFromApp tgs A ''group'' = Some ''/'')
   \<and> (1 < length (butlast (Split A CHR ''/''))
        \<longrightarrow> extractTagsFromApp tgs A ''group'' = Some (Join (butlast (Split A CHR ''/'')) ''/'')
          \<and> (\<forall>i. 1 \<le> i \<and> i < length (butlast (Split A CHR ''/''))
                \<longrightarrow> extractTagsFromApp tgs A (''group'' @ Itoa (int i))
                      = Some (Join (take (i + 1) (butlast (Split A CHR ''/''))) ''/'')))
   \<and> Join (Split A CHR ''/'') ''/'' = A
   \<and> (\<forall>w\<in>set (Split A CHR ''/''). CHR ''/'' \<notin> set w)
   \<and> extractTagsFromApp tgs ''x'' ''group'' = Some ''/''
   \<and> extractTagsFromApp tgs ''a/b'' ''group'' = Some ''/''
   \<and> extractTagsFromApp tgs ''a/b/c'' ''group'' = Some ''a/b''
   \<and> extractTagsFromApp tgs ''a/b/c'' ''group1'' = Some ''a/b''
   \<and> extractTagsFromApp tgs ''a/b/c/d'' ''group'' = Some ''a/b/c''
   \<and> extractTagsFromApp tgs ''a/b/c/d'' ''group1'' = Some ''a/b''
   \<and> extractTagsFromApp tgs ''a/b/c/d'' ''group2'' = Some ''a/b/c''"
proof -
  have 1: "extractTagsFromApp tgs A ''app_id'' = Some A"
    by (simp add: extractTagsFromApp_base)
  have 2: "extractTagsFromApp tgs A ''app'' = Some (last (Split A CHR ''/''))"
    by (simp add: extractTagsFromApp_base)
  have 3: "length (butlast (Split A CHR ''/'')) \<le> 1 \<longrightarrow> extractTagsFromApp tgs A ''group'' = Some ''/''"
    by (simp add: extractTagsFromApp_base)
  have 4: "1 < length (butlast (Split A CHR ''/''))
        \<longrightarrow> extractTagsFromApp tgs A ''group'' = Some (Join (butlast (Split A CHR ''/'')) ''/'')
          \<and> (\<forall>i. 1 \<le> i \<and> i < length (butlast (Split A CHR ''/''))
                \<longrightarrow> extractTagsFromApp tgs A (''group'' @ Itoa (int i))
                      = Some (Join (take (i + 1) (butlast (Split A CHR ''/''))) ''/''))"
  proof (intro impI conjI allI)
    assume "1 < length (butlast (Split A CHR ''/''))"
    then show "extractTagsFromApp tgs A ''group'' = Some (Join (butlast (Split A CHR ''/'')) ''/'')"
      by (simp add: extractTagsFromApp_base)
  next
    fix i
    assume "1 \<le> i \<and> i < length (butlast (Split A CHR ''/''))"
    then show "extractTagsFromApp tgs A (''group'' @ Itoa (int i))
                      = Some (Join (take (i + 1) (butlast (Split A CHR ''/''))) ''/'')"
      by (simp only: extractTagsFromApp_group_i)
  qed
  have 5: "Join (Split A CHR ''/'') ''/'' = A"
    using Join_splitWhere [of "CHR ''/''" A] by (simp add: Split_def)
  have 6: "\<forall>w\<in>set (Split A CHR ''/''). CHR ''/'' \<notin> set w"
    using splitWhere_clean [of "\<lambda>c. c = CHR ''/''" A] by (auto simp: Split_def)
  have 7: "extractTagsFromApp tgs ''x'' ''group'' = Some ''/''
   \<and> extractTagsFromApp tgs ''a/b'' ''group'' = Some ''/''
   \<and> extractTagsFromApp tgs ''a/b/c'' ''group'' = Some ''a/b''
   \<and> extractTagsFromApp tgs ''a/b/c'' ''group1'' = Some ''a/b''
   \<and> extractTagsFromApp tgs ''a/b/c/d'' ''group'' = Some ''a/b/c''
   \<and> extractTagsFromApp tgs ''a/b/c/d'' ''group1'' = Some ''a/b''
   \<and> extractTagsFromApp tgs ''a/b/c/d'' ''group2'' = Some ''a/b/c''"
    by (simp add: eval_defs)
  from 1 2 3 4 5 6 7 show ?thesis by (intro conjI) blast+
qed

theorem app_tags_witness:
  "extractTagsFromApp (map_of [(''host'', ''h1'')]) ''solo'' ''group'' = Some ''/''
   \<and> extractTagsFromApp (map_of [(''host'', ''h1'')]) ''prod/team/web/api'' ''group''
       = Some ''prod/team/web''
   \<and> extractTagsFromApp (map_of [(''host'', ''h1'')]) ''prod/team/web/api'' ''group1''
       = Some ''prod/team''
   \<and> extractTagsFromApp (map_of [(''host'', ''h1'')]) ''prod/team/web/api'' ''group2''
       = Some ''prod/team/web''"
proof -
  let ?tgs = "map_of [(''host'', ''h1'')]"
  let ?A = "''prod/team/web/api''"
  note s = app_tags [of ?tgs "''solo''"]
  note t = app_tags [of ?tgs ?A]
  have sp: "Split ?A CHR ''/'' = [''prod'', ''team'', ''web'', ''api'']"
    by (simp add: eval_defs)
  have so: "Split ''solo'' CHR ''/'' = [''solo'']"
    by (simp add: eval_defs)
  have k1: "''group'' @ Itoa (int 1) = ''group1''" by (simp add: eval_defs)
  have k2: "''group'' @ Itoa (int 2) = ''group2''" by (simp add: eval_defs)
  have h0: "length (butlast (Split ''solo'' CHR ''/'')) \<le> 1" unfolding so by simp
  have h: "1 < length (butlast (Split ?A CHR ''/''))" unfolding sp by simp
  have i1: "1 \<le> (1::nat) \<and> 1 < length (butlast (Split ?A CHR ''/''))" unfolding sp by simp
  have i2: "1 \<le> (2::nat) \<and> 2 < length (butlast (Split ?A CHR ''/''))" unfolding sp by simp
  from s [THEN conjunct2, THEN conjunct2, THEN conjunct1] h0
  have a: "extractTagsFromApp ?tgs ''solo'' ''group'' = Some ''/''"
    by (rule mp)
  from t [THEN conjunct2, THEN conjunct2, THEN conjunct2, THEN conjunct1] h
  have g: "extractTagsFromApp ?tgs ?A ''group'' = Some (Join (butlast (Split ?A CHR ''/'')) ''/'')
          \<and> (\<forall>i. 1 \<le> i \<and> i < length (butlast (Split ?A CHR ''/''))
                \<longrightarrow> extractTagsFromApp ?tgs ?A (''group'' @ Itoa (int i))
                      = Some (Join (take (i + 1) (butlast (Split ?A CHR ''/''))) ''/''))"
    by (rule mp)
  from g [THEN conjunct1]
  have b: "extractTagsFromApp ?tgs ?A ''group'' = Some ''prod/team/web''"
    unfolding sp by simp
  from g [THEN conjunct2, rule_format, OF i1]
  have c: "extractTagsFromApp ?tgs ?A ''group1'' = Some ''prod/team''"
    unfolding sp k1 by simp
  from g [THEN conjunct2, rule_format, OF i2]
  have d: "extractTagsFromApp ?tgs ?A ''group2'' = Some ''prod/team/web''"
    unfolding sp k2 by simp
  from a b c d show ?thesis by (intro conjI)
qed

text \<open>
  C2, as the claim states it, fails: a container with the label \<^verbatim>\<open>app_id\<close> =
  \<^verbatim>\<open>/infra/web/api\<close> and nothing else resolves to that app identity, and its
  expansion has \<^verbatim>\<open>group\<close> = \<^verbatim>\<open>/infra/web\<close>, \<^verbatim>\<open>group1\<close> = \<^verbatim>\<open>/infra\<close> and a
  \<^verbatim>\<open>group2\<close>; it is not the map of the claim.
\<close>

theorem infra_web_api_counterexample:
  "extractApp unset_env
     \<lparr>ID = ''c9'', Name = ''/api'', Labels = map_of [(''app_id'', ''/infra/web/api'')],
      Env = [''PATH=/bin'']\<rparr> = ''/infra/web/api''
   \<and> extractTagsFromApp Map.empty ''/infra/web/api'' ''group'' = Some ''/infra/web''
   \<and> extractTagsFromApp Map.empty ''/infra/web/api'' ''group1'' = Some ''/infra''
   \<and> extractTagsFromApp Map.empty ''/infra/web/api'' ''group2'' = Some ''/infra/web''
   \<and> extractTagsFromApp Map.empty ''/infra/web/api'' \<noteq>
       map_of [(''app_id'', ''/infra/web/api''), (''app'', ''api''), (''group'', ''infra/web''),
               (''group1'', ''infra/web'')]"
proof -
  have 1: "extractApp unset_env
     \<lparr>ID = ''c9'', Name = ''/api'', Labels = map_of [(''app_id'', ''/infra/web/api'')],
      Env = [''PATH=/bin'']\<rparr> = ''/infra/web/api''"
    by (simp add: config_defs resolve_defs)
  have 2: "extractTagsFromApp Map.empty ''/infra/web/api'' ''group'' = Some ''/infra/web''
   \<and> extractTagsFromApp Map.empty ''/infra/web/api'' ''group1'' = Some ''/infra''
   \<and> extractTagsFromApp Map.empty ''/infra/web/api'' ''group2'' = Some ''/infra/web''"
    by (simp add: eval_defs)
  have 3: "extractTagsFromApp Map.empty ''/infra/web/api'' \<noteq>
       map_of [(''app_id'', ''/infra/web/api''), (''app'', ''api''), (''group'', ''infra/web''),
               (''group1'', ''infra/web'')]"
  proof
    assume "extractTagsFromApp Map.empty ''/infra/web/api'' =
       map_of [(''app_id'', ''/infra/web/api''), (''app'', ''api''), (''group'', ''infra/web''),
               (''group1'', ''infra/web'')]"
    then have "extractTagsFromApp Map.empty ''/infra/web/api'' ''group'' =
       map_of [(''app_id'', ''/infra/web/api''), (''app'', ''api''), (''group'', ''infra/web''),
               (''group1'', ''infra/web'')] ''group''"
      by (rule arg_cong)
    then show False using 2 by simp
  qed
  from 1 2 3 show ?thesis by blast
qed

text \<open>
  C2, amended. For a container whose direct app label holds \<^verbatim>\<open>/infra/web/api\<close>,
  with no location label, no location entry and no trim prefix in its environment,
  the app identity is \<^verbatim>\<open>/infra/web/api\<close> and its expansion is exactly
  \<^verbatim>\<open>app_id\<close> = \<^verbatim>\<open>/infra/web/api\<close>, \<^verbatim>\<open>app\<close> = \<^verbatim>\<open>api\<close>, \<^verbatim>\<open>group\<close> =
  \<^verbatim>\<open>/infra/web\<close>, \<^verbatim>\<open>group1\<close> = \<^verbatim>\<open>/infra\<close>, \<^verbatim>\<open>group2\<close> = \<^verbatim>\<open>/infra/web\<close>: the
  piece before the leading \<^verbatim>\<open>/\<close> is empty and counts as a leading piece.
\<close>

theorem infra_web_api_tags:
  "Labels c (appLabel penv) = Some ''/infra/web/api'' \<Longrightarrow>
   Labels c appLocationLabel = None \<Longrightarrow>
   extractEnv c appEnvLocationPrefix = [] \<Longrightarrow>
   extractEnv c appEnvLocationTrimPrefix = [] \<Longrightarrow>
   extractApp penv c = ''/infra/web/api''
   \<and> extractTagsFromApp Map.empty (extractApp penv c) =
       map_of [(''app_id'', ''/infra/web/api''), (''app'', ''api''), (''group'', ''/infra/web''),
               (''group1'', ''/infra''), (''group2'', ''/infra/web'')]"
proof -
  assume d: "Labels c (appLabel penv) = Some ''/infra/web/api''"
    and l: "Labels c appLocationLabel = None"
    and e: "extractEnv c appEnvLocationPrefix = []"
    and t: "extractEnv c appEnvLocationTrimPrefix = []"
  have loc: "extractMetadata c appLocationLabel appEnvLocationPrefix [] = []"
    using l e by (simp add: extractMetadata_env)
  have dir: "extractMetadata c (appLabel penv) (appEnvPrefix penv) [] = ''/infra/web/api''"
    using d by (rule extractMetadata_label)
  have a: "extractApp penv c = ''/infra/web/api''"
    unfolding extractApp_def Let_def loc dir t by simp
  have "extractTagsFromApp Map.empty ''/infra/web/api'' =
       map_of [(''app_id'', ''/infra/web/api''), (''app'', ''api''), (''group'', ''/infra/web''),
               (''group1'', ''/infra''), (''group2'', ''/infra/web'')]"
    by (rule ext) (simp add: eval_defs)
  with a show ?thesis by simp
qed

theorem infra_web_api_tags_witness:
  "extractTagsFromApp Map.empty
     (extractApp unset_env
        \<lparr>ID = ''c9'', Name = ''/api'', Labels = map_of [(''app_id'', ''/infra/web/api'')],
         Env = [''PATH=/bin'']\<rparr>) =
     map_of [(''app_id'', ''/infra/web/api''), (''app'', ''api''), (''group'', ''/infra/web''),
             (''group1'', ''/infra''), (''group2'', ''/infra/web'')]"
proof -
  let ?c = "\<lparr>ID = ''c9'', Name = ''/api'', Labels = map_of [(''app_id'', ''/infra/web/api'')],
         Env = [''PATH=/bin'']\<rparr>"
  have h1: "Labels ?c (appLabel unset_env) = Some ''/infra/web/api''"
    by (simp add: config_defs)
  have h2: "Labels ?c appLocationLabel = None"
    by (simp add: config_defs)
  have h3: "extractEnv ?c appEnvLocationPrefix = []"
    by (simp add: config_defs resolve_defs)
  have h4: "extractEnv ?c appEnvLocationTrimPrefix = []"
    by (simp add: config_defs resolve_defs)
  from infra_web_api_tags [OF h1 h2 h3 h4, THEN conjunct2]
  show ?thesis .
qed

end
